(* ===== verification/Recon_Prelude.thy ===== *)
theory Recon_Prelude
  imports Main "HOL-Library.Sublist" "HOL-Library.Word"
begin

text \<open>
  Shared vocabulary of the development. Go strings are byte sequences; Isabelle's
  \<open>char\<close> is a byte, so a Go \<open>string\<close> is modelled as \<open>string\<close> (\<open>char list\<close>) and
  every library routine of package \<open>strings\<close> works on bytes, as Go's does. The Go
  \<open>map[string]struct{}\<close> used as a set is a partial map into \<open>unit\<close>. The generic
  lemmas below are on prefixes of mapped lists and on splitting a list at the first
  occurrence of a byte; the component theories use them through the named collections.
\<close>

type_synonym byte = char

type_synonym go_string = "char list"

text \<open>Go's \<open>map[string]struct{}\<close>: a key is present or not.\<close>

type_synonym go_set = "go_string \<rightharpoonup> unit"

text \<open>
  A Go \<open>rune\<close> is an \<open>int32\<close>; the runes the modelled code meets are the values
  \<open>utf8.DecodeRune\<close> returns, which lie in \<open>0 .. 0x10FFFF\<close>, so a rune is a \<open>nat\<close>.
\<close>

type_synonym rune = nat

named_theorems go_strings_simps \<open>evaluation rules of the modelled strings package\<close>

named_theorems extract_simps \<open>characteristic equations of the extraction loop\<close>

subsection \<open>Prefixes under a byte map that fixes the pattern bytes\<close>

text \<open>
  A byte map \<open>f\<close> is transparent for a pattern \<open>p\<close> when, for every byte \<open>c\<close> and every
  byte \<open>b\<close> of \<open>p\<close>, \<open>f c = b\<close> exactly when \<open>c = b\<close>. Such a map neither creates nor
  destroys an occurrence of \<open>p\<close> as a prefix.
\<close>

definition transparent_for :: "(char \<Rightarrow> char) \<Rightarrow> char list \<Rightarrow> bool" where
  "transparent_for f p \<longleftrightarrow> (\<forall>c. \<forall>b \<in> set p. f c = b \<longleftrightarrow> c = b)"

lemma prefix_map_transparent:
  assumes "transparent_for f p"
  shows "prefix p (map f s) \<longleftrightarrow> prefix p s"
  using assms
proof (induction p arbitrary: s)
  case Nil
  then show ?case by simp
next
  case (Cons b p)
  then have tp: "transparent_for f p" and hb: "\<And>c. f c = b \<longleftrightarrow> c = b"
    by (auto simp: transparent_for_def)
  show ?case
  proof (cases s)
    case Nil
    then show ?thesis by simp
  next
    case (Cons c s')
    with Cons.IH [OF tp] hb [of c] show ?thesis by auto
  qed
qed

lemma transparent_for_rev [simp]: "transparent_for f (rev p) = transparent_for f p"
  by (simp add: transparent_for_def)

subsection \<open>Cutting a list at the first occurrence of a byte\<close>

lemma takeWhile_dropWhile_sep:
  assumes "sep \<in> set s"
  shows "s = takeWhile (\<lambda>c. c \<noteq> sep) s @ sep # tl (dropWhile (\<lambda>c. c \<noteq> sep) s)"
  using assms by (induction s) auto

lemma length_tl_dropWhile_less [simp]:
  "sep \<in> set s \<Longrightarrow> length (tl (dropWhile (\<lambda>c. c \<noteq> sep) s)) < length s"
  by (induction s) (auto simp: le_imp_less_Suc length_dropWhile_le)

lemma sep_notin_takeWhile [simp]: "sep \<notin> set (takeWhile (\<lambda>c. c \<noteq> sep) s)"
  by (induction s) auto

subsection \<open>Lists: leading elements, \<open>find\<close>, index ranges\<close>

lemma list_split_1: "cs \<noteq> [] \<Longrightarrow> cs = cs ! 0 # drop 1 cs"
  by (cases cs) simp_all

lemma list_split_2: "1 < length cs \<Longrightarrow> cs = cs ! 0 # cs ! 1 # drop 2 cs"
  by (cases cs; cases "tl cs") simp_all

lemma list_split_3: "2 < length cs \<Longrightarrow> cs = cs ! 0 # cs ! 1 # cs ! 2 # drop 3 cs"
  by (cases cs; cases "tl cs"; cases "tl (tl cs)") simp_all

lemma drop_split_at: "st \<le> sp \<Longrightarrow> drop st s = take (sp - st) (drop st s) @ drop sp s"
  by (metis append_take_drop_id drop_drop le_add_diff_inverse2)

lemma find_SomeD: "find P xs = Some x \<Longrightarrow> x \<in> set xs \<and> P x"
  by (induction xs) (auto split: if_splits)

lemma find_map_option: "find P (map f xs) = map_option f (find (P \<circ> f) xs)"
  by (induction xs) simp_all

text \<open>Extending a property of an index range by its first or its last index.\<close>

lemma all_from_Suc:
  "P k \<Longrightarrow> \<forall>j. Suc k \<le> j \<and> j < n \<longrightarrow> P j \<Longrightarrow> \<forall>j. k \<le> j \<and> j < n \<longrightarrow> P j"
proof (intro allI impI)
  fix j
  assume a: "P k" "\<forall>j. Suc k \<le> j \<and> j < n \<longrightarrow> P j" and j: "k \<le> j \<and> j < n"
  show "P j"
  proof (cases "j = k")
    case True
    then show ?thesis using a(1) by simp
  next
    case False
    then have "Suc k \<le> j" using j by linarith
    then show ?thesis using a(2) j by blast
  qed
qed

lemma all_upto_pred:
  "P (n - 1) \<Longrightarrow> 0 < (n::nat) \<Longrightarrow> \<forall>j. k \<le> j \<and> j < n - 1 \<longrightarrow> P j \<Longrightarrow>
   \<forall>j. k \<le> j \<and> j < n \<longrightarrow> P j"
proof (intro allI impI)
  fix j
  assume a: "P (n - 1)" "0 < n" "\<forall>j. k \<le> j \<and> j < n - 1 \<longrightarrow> P j" and j: "k \<le> j \<and> j < n"
  show "P j"
  proof (cases "j = n - 1")
    case True
    then show ?thesis using a(1) by simp
  next
    case False
    moreover have "j < n" using j by simp
    ultimately have "j < n - 1" by arith
    then show ?thesis using a(3) j by blast
  qed
qed

subsection \<open>Maps into unit are sets\<close>

lemma go_set_eqI: "dom (m :: go_set) = dom m' \<Longrightarrow> m = m'"
proof (rule ext)
  fix k
  assume "dom m = dom m'"
  then have "m k = None \<longleftrightarrow> m' k = None"
    by (metis domIff)
  then show "m k = m' k"
    by (cases "m k"; cases "m' k") auto
qed

end
