(* ===== verification/Go_Strings.thy ===== *)
theory Go_Strings
  imports Recon_Prelude
begin

text \<open>
  The routines of Go's package \<open>strings\<close> that \<open>src/recon/crtRecon.go\<close> calls, modelled
  on bytes: \<open>strings.TrimSpace\<close>, \<open>strings.ToLower\<close>, \<open>strings.ContainsAny\<close>,
  \<open>strings.Contains\<close>, \<open>strings.Split\<close> and \<open>strings.ReplaceAll\<close>, each for the
  arguments the program passes. \<open>TrimSpace\<close> trims the runes for which
  \<open>unicode.IsSpace\<close> holds; a rune is matched through its UTF-8 encoding, which is
  exact for Go's rune decoding at either end of a string. \<open>ToLower\<close> is exact on ASCII
  input; on a non-ASCII rune Go applies the Unicode case tables, which the model does not
  carry (it leaves such bytes unchanged).
\<close>

subsection \<open>Whitespace runes and trimming\<close>

text \<open>
  The runes of \<open>unicode.IsSpace\<close>: the Latin-1 ones (\<open>'\t'\<close>, \<open>'\n'\<close>, \<open>'\v'\<close>,
  \<open>'\f'\<close>, \<open>'\r'\<close>, \<open>' '\<close>, U+0085, U+00A0) and the other \<open>White_Space\<close> runes
  (U+1680, U+2000 to U+200A, U+2028, U+2029, U+202F, U+205F, U+3000), in UTF-8.
\<close>

definition unicode_space_utf8 :: "go_string list" where
  "unicode_space_utf8 =
    [[CHR 0x09], [CHR 0x0A], [CHR 0x0B], [CHR 0x0C], [CHR 0x0D], [CHR 0x20],
     [CHR 0xC2, CHR 0x85], [CHR 0xC2, CHR 0xA0],
     [CHR 0xE1, CHR 0x9A, CHR 0x80],
     [CHR 0xE2, CHR 0x80, CHR 0x80], [CHR 0xE2, CHR 0x80, CHR 0x81],
     [CHR 0xE2, CHR 0x80, CHR 0x82], [CHR 0xE2, CHR 0x80, CHR 0x83],
     [CHR 0xE2, CHR 0x80, CHR 0x84], [CHR 0xE2, CHR 0x80, CHR 0x85],
     [CHR 0xE2, CHR 0x80, CHR 0x86], [CHR 0xE2, CHR 0x80, CHR 0x87],
     [CHR 0xE2, CHR 0x80, CHR 0x88], [CHR 0xE2, CHR 0x80, CHR 0x89],
     [CHR 0xE2, CHR 0x80, CHR 0x8A],
     [CHR 0xE2, CHR 0x80, CHR 0xA8], [CHR 0xE2, CHR 0x80, CHR 0xA9],
     [CHR 0xE2, CHR 0x80, CHR 0xAF], [CHR 0xE2, CHR 0x81, CHR 0x9F],
     [CHR 0xE3, CHR 0x80, CHR 0x80]]"

text \<open>
  \<open>strings.TrimLeftFunc\<close>: drop a leading rune while it is one of the given encodings.
  The test \<open>p \<noteq> []\<close> never fails for the encodings above; it makes the measure
  decrease on every call.
\<close>

function trim_left_seqs :: "go_string list \<Rightarrow> go_string \<Rightarrow> go_string" where
  "trim_left_seqs ps s =
     (case find (\<lambda>p. p \<noteq> [] \<and> prefix p s) ps of
        None \<Rightarrow> s
      | Some p \<Rightarrow> trim_left_seqs ps (drop (length p) s))"
  by pat_completeness auto
termination
proof (relation "measure (\<lambda>(ps, s). length s)")
  fix ps :: "go_string list" and s p :: go_string
  assume "find (\<lambda>p. p \<noteq> [] \<and> prefix p s) ps = Some p"
  then have "p \<noteq> []" and "prefix p s"
    by (auto simp: find_Some_iff)
  then have "0 < length p" and "length p \<le> length s"
    by (auto dest: prefix_length_le)
  then show "((ps, drop (length p) s), ps, s) \<in> measure (\<lambda>(ps, s). length s)"
    by (simp add: diff_less_mono2 del: length_greater_0_conv)
qed auto

declare trim_left_seqs.simps [simp del]

text \<open>No encoding of \<open>ps\<close> is a prefix of \<open>s\<close>: trimming stops here.\<close>

abbreviation no_lead :: "go_string list \<Rightarrow> go_string \<Rightarrow> bool" where
  "no_lead ps s \<equiv> find (\<lambda>p. p \<noteq> [] \<and> prefix p s) ps = None"


definition go_TrimLeftSpace :: "go_string \<Rightarrow> go_string" where
  "go_TrimLeftSpace s = trim_left_seqs unicode_space_utf8 s"

text \<open>\<open>strings.TrimRightFunc\<close>: the same on the reversed bytes with reversed encodings.\<close>

definition go_TrimRightSpace :: "go_string \<Rightarrow> go_string" where
  "go_TrimRightSpace s = rev (trim_left_seqs (map rev unicode_space_utf8) (rev s))"

text \<open>\<open>strings.TrimSpace s\<close> is \<open>TrimFunc(s, unicode.IsSpace)\<close>: left, then right.\<close>

definition go_TrimSpace :: "go_string \<Rightarrow> go_string" where
  "go_TrimSpace s = go_TrimRightSpace (go_TrimLeftSpace s)"

subsection \<open>Case mapping, search, split, replace\<close>

text \<open>\<open>strings.ToLower\<close> on an ASCII byte: if \<open>'A' <= c && c <= 'Z'\<close>, add \<open>'a' - 'A'\<close>.\<close>

definition is_ascii_upper :: "byte \<Rightarrow> bool" where
  "is_ascii_upper c \<longleftrightarrow> 65 \<le> (of_char c :: nat) \<and> (of_char c :: nat) \<le> 90"

definition ascii_lower :: "byte \<Rightarrow> byte" where
  "ascii_lower c = (if is_ascii_upper c then char_of (of_char c + (32::nat)) else c)"

text \<open>A letter of either case; \<open>ToLower\<close> fixes every other byte.\<close>

definition is_ascii_letter :: "byte \<Rightarrow> bool" where
  "is_ascii_letter c \<longleftrightarrow> is_ascii_upper c \<or> 97 \<le> (of_char c :: nat) \<and> (of_char c :: nat) \<le> 122"

definition go_ToLower :: "go_string \<Rightarrow> go_string" where
  "go_ToLower s = map ascii_lower s"

text \<open>\<open>strings.ContainsAny(s, chars)\<close> for ASCII \<open>chars\<close>: a byte of \<open>s\<close> is in \<open>chars\<close>.\<close>

definition go_ContainsAny :: "go_string \<Rightarrow> go_string \<Rightarrow> bool" where
  "go_ContainsAny s chars = (\<exists>c \<in> set s. c \<in> set chars)"

text \<open>\<open>strings.Contains(s, substr)\<close>: \<open>substr\<close> occurs in \<open>s\<close>.\<close>

definition go_Contains :: "go_string \<Rightarrow> go_string \<Rightarrow> bool" where
  "go_Contains s substr = sublist substr s"

text \<open>
  \<open>strings.Split(s, sep)\<close> for a one-byte separator, as its loop runs: while \<open>sep\<close>
  occurs, emit the bytes before it and continue after it; then emit the rest.
\<close>

function go_Split :: "go_string \<Rightarrow> byte \<Rightarrow> go_string list" where
  "go_Split s sep =
     (if sep \<in> set s
      then takeWhile (\<lambda>c. c \<noteq> sep) s # go_Split (tl (dropWhile (\<lambda>c. c \<noteq> sep) s)) sep
      else [s])"
  by pat_completeness auto
termination
  by (relation "measure (\<lambda>(s, sep). length s)") (auto simp del: length_tl)

declare go_Split.simps [simp del]

text \<open>\<open>strings.ReplaceAll(s, old, new)\<close> for one-byte \<open>old\<close> and \<open>new\<close>.\<close>

definition go_ReplaceAll_byte :: "go_string \<Rightarrow> byte \<Rightarrow> byte \<Rightarrow> go_string" where
  "go_ReplaceAll_byte s old new = map (\<lambda>c. if c = old then new else c) s"

text \<open>
  \<open>strings.Join(a, sep)\<close>, which the program does not call: the inverse of
  \<open>Split\<close> used to state its round trip.
\<close>

fun go_Join :: "go_string list \<Rightarrow> byte \<Rightarrow> go_string" where
  "go_Join [] sep = []"
| "go_Join [w] sep = w"
| "go_Join (w # v # ws) sep = w @ sep # go_Join (v # ws) sep"



text \<open>The rules that evaluate the model on a concrete string by \<open>simp\<close>.\<close>

lemmas go_eval = go_TrimSpace_def go_TrimLeftSpace_def go_TrimRightSpace_def
  unicode_space_utf8_def trim_left_seqs.simps go_ToLower_def ascii_lower_def
  is_ascii_upper_def char_of_def bit_simps go_Split.simps

subsection \<open>Trimming: the generic loop\<close>

lemma trim_left_seqs_stop: "no_lead ps s \<Longrightarrow> trim_left_seqs ps s = s"
  by (simp add: trim_left_seqs.simps)

lemma trim_left_seqs_step:
  "find (\<lambda>p. p \<noteq> [] \<and> prefix p s) ps = Some p \<Longrightarrow>
   trim_left_seqs ps s = trim_left_seqs ps (drop (length p) s)"
  by (simp add: trim_left_seqs.simps [of ps s])

lemma trim_left_seqs_suffix: "suffix (trim_left_seqs ps s) s"
proof (induction ps s rule: trim_left_seqs.induct)
  case (1 ps s)
  show ?case
  proof (cases "find (\<lambda>p. p \<noteq> [] \<and> prefix p s) ps")
    case None
    then show ?thesis by (simp add: trim_left_seqs_stop)
  next
    case (Some p)
    with "1.IH" have "suffix (trim_left_seqs ps (drop (length p) s)) (drop (length p) s)"
      by simp
    then show ?thesis
      using Some suffix_drop suffix_order.trans by (metis trim_left_seqs_step)
  qed
qed

lemma trim_left_seqs_no_lead: "no_lead ps (trim_left_seqs ps s)"
proof (induction ps s rule: trim_left_seqs.induct)
  case (1 ps s)
  show ?case
  proof (cases "find (\<lambda>p. p \<noteq> [] \<and> prefix p s) ps")
    case None
    then show ?thesis by (simp add: trim_left_seqs_stop)
  next
    case (Some p)
    with "1.IH" show ?thesis by (simp add: trim_left_seqs_step)
  qed
qed

lemma trim_left_seqs_idem: "trim_left_seqs ps (trim_left_seqs ps s) = trim_left_seqs ps s"
  by (rule trim_left_seqs_stop [OF trim_left_seqs_no_lead])

lemma no_lead_prefix: "no_lead ps t \<Longrightarrow> prefix s t \<Longrightarrow> no_lead ps s"
  by (auto simp: find_None_iff intro: prefix_order.trans)

lemma trim_left_seqs_map:
  "\<forall>p \<in> set ps. transparent_for f p \<Longrightarrow>
   trim_left_seqs ps (map f s) = map f (trim_left_seqs ps s)"
proof (induction ps s rule: trim_left_seqs.induct)
  case (1 ps s)
  have eq: "find (\<lambda>p. p \<noteq> [] \<and> prefix p (map f s)) ps = find (\<lambda>p. p \<noteq> [] \<and> prefix p s) ps"
    using "1.prems" by (intro find_cong) (auto simp: prefix_map_transparent)
  show ?case
  proof (cases "find (\<lambda>p. p \<noteq> [] \<and> prefix p s) ps")
    case None
    with eq show ?thesis by (simp add: trim_left_seqs_stop)
  next
    case (Some p)
    with eq "1.IH" "1.prems" show ?thesis
      by (simp add: trim_left_seqs_step [of _ _ p] drop_map)
  qed
qed


subsection \<open>TrimSpace: a trimmed infix without leading or trailing space runes\<close>

lemma prefix_TrimRightSpace: "prefix (go_TrimRightSpace t) t"
proof -
  have "suffix (trim_left_seqs (map rev unicode_space_utf8) (rev t)) (rev t)"
    by (rule trim_left_seqs_suffix)
  then show ?thesis
    by (simp add: go_TrimRightSpace_def suffix_to_prefix)
qed

lemma go_TrimSpace_sublist: "sublist (go_TrimSpace s) s"
proof -
  have "prefix (go_TrimSpace s) (go_TrimLeftSpace s)"
    by (simp add: go_TrimSpace_def prefix_TrimRightSpace)
  moreover have "suffix (go_TrimLeftSpace s) s"
    by (simp add: go_TrimLeftSpace_def trim_left_seqs_suffix)
  ultimately show ?thesis
    by (meson prefix_imp_sublist suffix_imp_sublist sublist_order.order_trans)
qed

lemma go_TrimSpace_no_lead: "no_lead unicode_space_utf8 (go_TrimSpace s)"
proof -
  have "no_lead unicode_space_utf8 (go_TrimLeftSpace s)"
    by (simp add: go_TrimLeftSpace_def trim_left_seqs_no_lead)
  then show ?thesis
    unfolding go_TrimSpace_def by (rule no_lead_prefix) (rule prefix_TrimRightSpace)
qed

lemma go_TrimSpace_no_trail:
  "no_lead (map rev unicode_space_utf8) (rev (go_TrimSpace s))"
  by (simp add: go_TrimSpace_def go_TrimRightSpace_def trim_left_seqs_no_lead)

lemma go_TrimRightSpace_idem: "go_TrimRightSpace (go_TrimRightSpace t) = go_TrimRightSpace t"
  by (simp add: go_TrimRightSpace_def trim_left_seqs_idem)

lemma go_TrimSpace_idem: "go_TrimSpace (go_TrimSpace s) = go_TrimSpace s"
proof -
  have "go_TrimLeftSpace (go_TrimSpace s) = go_TrimSpace s"
    using go_TrimSpace_no_lead by (simp add: go_TrimLeftSpace_def trim_left_seqs_stop)
  then show ?thesis
    by (simp add: go_TrimSpace_def [of "go_TrimSpace s"]) (simp add: go_TrimSpace_def go_TrimRightSpace_idem)
qed

lemma go_TrimSpace_map:
  assumes "\<forall>p \<in> set unicode_space_utf8. transparent_for f p"
  shows "go_TrimSpace (map f s) = map f (go_TrimSpace s)"
proof -
  have r: "\<forall>p \<in> set (map rev unicode_space_utf8). transparent_for f p"
    using assms by simp
  show ?thesis
    using trim_left_seqs_map [OF assms] trim_left_seqs_map [OF r]
    by (simp add: go_TrimSpace_def go_TrimLeftSpace_def go_TrimRightSpace_def rev_map)
qed

subsection \<open>ToLower\<close>

lemma ascii_lower_eq_iff:
  assumes "\<not> is_ascii_letter b"
  shows "ascii_lower c = b \<longleftrightarrow> c = b"
proof (cases "is_ascii_upper c")
  case True
  then have "of_char (ascii_lower c) = (of_char c + 32 :: nat)"
    by (simp add: ascii_lower_def is_ascii_upper_def)
  with True have "is_ascii_letter (ascii_lower c)"
    by (simp add: is_ascii_letter_def is_ascii_upper_def)
  with True assms show ?thesis
    by (auto simp: is_ascii_letter_def)
next
  case False
  then show ?thesis by (simp add: ascii_lower_def)
qed

lemma unicode_space_utf8_lower: "\<forall>p \<in> set unicode_space_utf8. transparent_for ascii_lower p"
  by (simp add: unicode_space_utf8_def transparent_for_def ascii_lower_eq_iff
      is_ascii_letter_def is_ascii_upper_def)

lemma ascii_lower_not_upper: "\<not> is_ascii_upper (ascii_lower c)"
  by (auto simp: ascii_lower_def is_ascii_upper_def)

lemma ascii_lower_idem: "ascii_lower (ascii_lower c) = ascii_lower c"
  using ascii_lower_not_upper by (simp add: ascii_lower_def [of "ascii_lower c"])

lemma go_ToLower_idem: "go_ToLower (go_ToLower s) = go_ToLower s"
  by (simp add: go_ToLower_def ascii_lower_idem)

lemma go_ToLower_TrimSpace: "go_TrimSpace (go_ToLower s) = go_ToLower (go_TrimSpace s)"
  unfolding go_ToLower_def by (rule go_TrimSpace_map [OF unicode_space_utf8_lower])

lemma set_go_TrimSpace: "set (go_TrimSpace s) \<subseteq> set s"
  using go_TrimSpace_sublist by (rule set_mono_sublist)

lemma set_go_ToLower:
  assumes "\<not> is_ascii_letter c"
  shows "c \<in> set (go_ToLower s) \<longleftrightarrow> c \<in> set s"
proof -
  have "c \<in> set (go_ToLower s) \<longleftrightarrow> (\<exists>x \<in> set s. ascii_lower x = c)"
    by (auto simp: go_ToLower_def)
  also have "\<dots> \<longleftrightarrow> c \<in> set s"
    using ascii_lower_eq_iff [OF assms] by auto
  finally show ?thesis .
qed

lemma newline_not_letter: "\<not> is_ascii_letter CHR ''\<newline>''"
  by (simp add: is_ascii_letter_def is_ascii_upper_def)

subsection \<open>Split and its round trip through Join\<close>

lemma go_Split_no_sep: "sep \<notin> set s \<Longrightarrow> go_Split s sep = [s]"
  by (simp add: go_Split.simps)

lemma go_Split_sep:
  "sep \<in> set s \<Longrightarrow>
   go_Split s sep = takeWhile (\<lambda>c. c \<noteq> sep) s # go_Split (tl (dropWhile (\<lambda>c. c \<noteq> sep) s)) sep"
  by (simp add: go_Split.simps [of s sep])

lemma go_Split_not_Nil [simp]: "go_Split s sep \<noteq> []"
  by (cases "sep \<in> set s") (simp_all add: go_Split_no_sep go_Split_sep)

lemma go_Split_pieces: "w \<in> set (go_Split s sep) \<Longrightarrow> sep \<notin> set w"
proof (induction s sep rule: go_Split.induct)
  case (1 s sep)
  show ?case
  proof (cases "sep \<in> set s")
    case True
    with "1.IH" "1.prems" show ?thesis by (auto simp: go_Split_sep [OF True])
  next
    case False
    with "1.prems" show ?thesis by (simp add: go_Split_no_sep)
  qed
qed

text \<open>
  C24: joining the pieces of \<open>strings.Split(s, sep)\<close> with \<open>sep\<close> gives back \<open>s\<close>:
  the inner loop of \<open>main\<close> sees every byte of \<open>NameValue\<close> but the newlines.
\<close>

theorem go_Split_join: "go_Join (go_Split s sep) sep = s"
proof (induction s sep rule: go_Split.induct)
  case (1 s sep)
  show ?case
  proof (cases "sep \<in> set s")
    case True
    let ?rest = "tl (dropWhile (\<lambda>c. c \<noteq> sep) s)"
    obtain w ws where ws: "go_Split ?rest sep = w # ws"
      using go_Split_not_Nil by (meson neq_Nil_conv)
    have "go_Join (go_Split s sep) sep =
          takeWhile (\<lambda>c. c \<noteq> sep) s @ sep # go_Join (w # ws) sep"
      by (simp add: go_Split_sep [OF True] ws)
    also have "\<dots> = takeWhile (\<lambda>c. c \<noteq> sep) s @ sep # ?rest"
      using "1.IH" [OF True] ws by simp
    also have "\<dots> = s"
      by (rule takeWhile_dropWhile_sep [OF True, symmetric])
    finally show ?thesis .
  next
    case False
    then show ?thesis by (simp add: go_Split_no_sep)
  qed
qed

lemma go_Split_length: "length (go_Split s sep) = Suc (count_list s sep)"
proof (induction s sep rule: go_Split.induct)
  case (1 s sep)
  show ?case
  proof (cases "sep \<in> set s")
    case True
    let ?rest = "tl (dropWhile (\<lambda>c. c \<noteq> sep) s)"
    have "count_list s sep = count_list (takeWhile (\<lambda>c. c \<noteq> sep) s @ sep # ?rest) sep"
      using takeWhile_dropWhile_sep [OF True] by (rule arg_cong)
    also have "\<dots> = Suc (count_list ?rest sep)"
      by simp
    finally show ?thesis
      using "1.IH" [OF True] by (simp add: go_Split_sep [OF True])
  next
    case False
    then show ?thesis by (simp add: go_Split_no_sep)
  qed
qed

end
