(* ===== verification/Utf8.thy ===== *)
theory Utf8
  imports Recon_Prelude
begin

text \<open>
  Go's package \<open>unicode/utf8\<close>, as \<open>strings.TrimSpace\<close> uses it (through
  \<open>strings.TrimFunc\<close>, see \<open>Go_Trim\<close>): \<open>DecodeRune\<close>, which reads
  the rune a byte string starts with and its width, answering \<open>RuneError\<close> of width 1
  for a byte that does not start a valid encoding, and \<open>EncodeRune\<close>, which writes a
  rune, writing \<open>RuneError\<close> for a surrogate or a value beyond \<open>MaxRune\<close>. A rune is
  a \<open>nat\<close>: the program only meets the non-negative runes these routines produce.
  The masks and shifts of the Go code (\<open>p0 & mask2\<close>, \<open>b1 & maskx\<close>, \<open>r >> 6\<close>) are
  written as \<open>mod\<close> and \<open>div\<close> by the corresponding powers of two.
\<close>

definition RuneError :: rune where
  "RuneError = 0xFFFD"

definition MaxRune :: rune where
  "MaxRune = 0x10FFFF"

text \<open>\<open>utf8.ValidRune\<close>: at most \<open>MaxRune\<close> and not a surrogate half.\<close>

definition valid_rune :: "rune \<Rightarrow> bool" where
  "valid_rune r \<longleftrightarrow> r \<le> MaxRune \<and> \<not> (0xD800 \<le> r \<and> r \<le> 0xDFFF)"

text \<open>
  The tables \<open>first\<close> and \<open>acceptRanges\<close>: for a byte that starts a multi-byte
  encoding, the width and the range the second byte must lie in.
\<close>

definition utf8_accept :: "nat \<Rightarrow> (nat \<times> nat \<times> nat) option" where
  "utf8_accept b =
     (if 0xC2 \<le> b \<and> b \<le> 0xDF then Some (2, 0x80, 0xBF)
      else if b = 0xE0 then Some (3, 0xA0, 0xBF)
      else if 0xE1 \<le> b \<and> b \<le> 0xEC then Some (3, 0x80, 0xBF)
      else if b = 0xED then Some (3, 0x80, 0x9F)
      else if 0xEE \<le> b \<and> b \<le> 0xEF then Some (3, 0x80, 0xBF)
      else if b = 0xF0 then Some (4, 0x90, 0xBF)
      else if 0xF1 \<le> b \<and> b \<le> 0xF3 then Some (4, 0x80, 0xBF)
      else if b = 0xF4 then Some (4, 0x80, 0x8F)
      else None)"

text \<open>A continuation byte: \<open>locb <= b && b <= hicb\<close>.\<close>

definition is_cont :: "nat \<Rightarrow> bool" where
  "is_cont b \<longleftrightarrow> 0x80 \<le> b \<and> b \<le> 0xBF"

text \<open>\<open>utf8.DecodeRune(p)\<close>: the rune and its width.\<close>

fun go_DecodeRune :: "go_string \<Rightarrow> rune \<times> nat" where
  "go_DecodeRune [] = (RuneError, 0)"
| "go_DecodeRune (c0 # cs) =
     (let p0 = (of_char c0 :: nat) in
      if p0 < 0x80 then (p0, 1)
      else case utf8_accept p0 of
        None \<Rightarrow> (RuneError, 1)
      | Some (sz, lo, hi) \<Rightarrow>
          if length (c0 # cs) < sz then (RuneError, 1)
          else let b1 = (of_char (cs ! 0) :: nat) in
            if b1 < lo \<or> hi < b1 then (RuneError, 1)
            else if sz \<le> 2 then ((p0 mod 0x20) * 0x40 + b1 mod 0x40, 2)
            else let b2 = (of_char (cs ! 1) :: nat) in
              if \<not> is_cont b2 then (RuneError, 1)
              else if sz \<le> 3 then
                ((p0 mod 0x10) * 0x1000 + (b1 mod 0x40) * 0x40 + b2 mod 0x40, 3)
              else let b3 = (of_char (cs ! 2) :: nat) in
                if \<not> is_cont b3 then (RuneError, 1)
                else ((p0 mod 0x08) * 0x40000 + (b1 mod 0x40) * 0x1000 +
                      (b2 mod 0x40) * 0x40 + b3 mod 0x40, 4))"

text \<open>\<open>utf8.EncodeRune\<close>, its \<open>switch\<close> in order, the fall-through included.\<close>

definition go_EncodeRune :: "rune \<Rightarrow> go_string" where
  "go_EncodeRune r =
     (if r \<le> 0x7F then [char_of r]
      else if r \<le> 0x7FF then [char_of (0xC0 + r div 0x40), char_of (0x80 + r mod 0x40)]
      else
        (let r = (if MaxRune < r \<or> (0xD800 \<le> r \<and> r \<le> 0xDFFF) then RuneError else r) in
         if r \<le> 0xFFFF
         then [char_of (0xE0 + r div 0x1000), char_of (0x80 + r div 0x40 mod 0x40),
               char_of (0x80 + r mod 0x40)]
         else [char_of (0xF0 + r div 0x40000), char_of (0x80 + r div 0x1000 mod 0x40),
               char_of (0x80 + r div 0x40 mod 0x40), char_of (0x80 + r mod 0x40)]))"


text \<open>\<open>utf8.RuneSelf\<close> and \<open>utf8.UTFMax\<close>.\<close>

definition RuneSelf :: nat where
  "RuneSelf = 0x80"

definition UTFMax :: int where
  "UTFMax = 4"

text \<open>
  \<open>utf8.RuneStart(b)\<close> is \<open>b & 0xC0 != 0x80\<close>: the top two bits of the byte are not
  \<open>10\<close>, that is \<open>b div 64\<close> (a byte has at most two bits above the sixth) is not 2.
\<close>

definition rune_start :: "byte \<Rightarrow> bool" where
  "rune_start c \<longleftrightarrow> (of_char c :: nat) div 64 \<noteq> 2"

text \<open>
  The backward scan of \<open>DecodeLastRune\<close>:
  \<open>for start--; start >= lim; start-- { if RuneStart(p[start]) { break } }\<close>.
  Indices are Go \<open>int\<close>s: the scan may stop at \<open>lim - 1\<close>, which is \<open>-1\<close> when
  \<open>lim = 0\<close>.
\<close>

function scan_start :: "go_string \<Rightarrow> int \<Rightarrow> int \<Rightarrow> int" where
  "scan_start p start lim =
     (if start < lim then start
      else if rune_start (p ! nat start) then start
      else scan_start p (start - 1) lim)"
  by pat_completeness auto
termination
  by (relation "measure (\<lambda>(p, start, lim). nat (start - lim + 1))") auto

declare scan_start.simps [simp del]

text \<open>\<open>utf8.DecodeLastRune(p)\<close>: the last rune of \<open>p\<close> and its width.\<close>

definition go_DecodeLastRune :: "go_string \<Rightarrow> rune \<times> nat" where
  "go_DecodeLastRune p =
     (let end' = int (length p) in
      if end' = 0 then (RuneError, 0)
      else
        let start = end' - 1;
            r = (of_char (p ! nat start) :: nat) in
        if r < RuneSelf then (r, 1)
        else
          let lim = (if end' - UTFMax < 0 then 0 else end' - UTFMax);
              start = scan_start p (start - 1) lim;
              start = (if start < 0 then 0 else start);
              (r, size) = go_DecodeRune (drop (nat start) p) in
          if start + int size \<noteq> end' then (RuneError, 1) else (r, size))"

lemmas utf8_tables = utf8_accept_def is_cont_def RuneError_def MaxRune_def

subsection \<open>Arithmetic of the bit fields\<close>

lemma add_mod_small: "(n::nat) dvd a \<Longrightarrow> x < n \<Longrightarrow> (a + x) mod n = x"
  by (auto elim!: dvdE)

lemma div_mod_split: "(x::nat) div n div m * m * n + x div n mod m * n + x mod n = x"
proof -
  have "x div n div m * m * n + x div n mod m * n = (x div n div m * m + x div n mod m) * n"
    by (simp only: add_mult_distrib)
  also have "\<dots> = x div n * n" by simp
  finally show ?thesis by simp
qed

lemma div_64_64: "(r::nat) div 64 div 64 = r div 4096"
  using div_mult2_eq [of r 64 64] by simp

lemma div_64_4096: "(r::nat) div 4096 div 64 = r div 262144"
  using div_mult2_eq [of r 4096 64] by simp

lemma split3: "(r::nat) = r div 4096 * 4096 + r div 64 mod 64 * 64 + r mod 64"
  using div_mod_split [of r 64 64] by (simp add: div_64_64)

lemma split4:
  "(r::nat) = r div 262144 * 262144 + r div 4096 mod 64 * 4096 + r div 64 mod 64 * 64 + r mod 64"
proof -
  have "r div 262144 * 4096 + r div 4096 mod 64 * 64 + r div 64 mod 64 = r div 64"
    using div_mod_split [of "r div 64" 64 64] by (simp add: div_64_64 div_64_4096)
  then show ?thesis
    using div_mult_mod_eq [of r 64] by linarith
qed

lemma digit_div: "(z::nat) < 64 \<Longrightarrow> (q * 64 + z) div 64 = q"
  by simp

lemma digit_mod: "(z::nat) < 64 \<Longrightarrow> (q * 64 + z) mod 64 = z"
  by simp

lemma digits3: "x * 4096 + y * 64 + (z::nat) = (x * 64 + y) * 64 + z"
  by simp

lemma digits4: "w * 262144 + x * 4096 + y * 64 + (z::nat) = ((w * 64 + x) * 64 + y) * 64 + z"
  by simp

lemmas digit_simps = digit_div digit_mod div_64_64 [symmetric] div_64_4096 [symmetric]

subsection \<open>Encodings of each width\<close>

lemma encode_2:
  assumes "2 \<le> x" "x \<le> 31" "y < 64"
  shows "go_EncodeRune (x * 64 + y) = [char_of (192 + x), char_of (128 + y)]"
  using assms by (simp add: go_EncodeRune_def)

lemma range_3:
  assumes "x \<le> 15" "y < 64" "z < 64" "x = 0 \<longrightarrow> 32 \<le> y" "x = 13 \<longrightarrow> y < 32"
  shows "0x7FF < x * 4096 + y * 64 + z \<and> valid_rune (x * 4096 + y * 64 + z) \<and>
         x * 4096 + y * 64 + z \<le> 0xFFFF"
proof -
  let ?r = "x * 4096 + y * 64 + z"
  have big: "0x7FF < ?r" using assms(1,4) by auto
  have small: "?r \<le> 0xFFFF" using assms(1-3) by linarith
  have sur: "\<not> (0xD800 \<le> ?r \<and> ?r \<le> 0xDFFF)"
  proof
    assume "0xD800 \<le> ?r \<and> ?r \<le> 0xDFFF"
    with assms(2,3) have "x = 13" by linarith
    with assms(5) \<open>0xD800 \<le> ?r \<and> ?r \<le> 0xDFFF\<close> assms(3) show False by linarith
  qed
  show ?thesis using big small sur by (simp add: valid_rune_def MaxRune_def)
qed

lemma range_4:
  assumes "w \<le> 4" "x < 64" "y < 64" "z < 64" "w = 0 \<longrightarrow> 16 \<le> x" "w = 4 \<longrightarrow> x < 16"
  shows "0xFFFF < w * 262144 + x * 4096 + y * 64 + z \<and> valid_rune (w * 262144 + x * 4096 + y * 64 + z)"
proof -
  let ?r = "w * 262144 + x * 4096 + y * 64 + z"
  have big: "0xFFFF < ?r" using assms(1,5) by auto
  have small: "?r \<le> MaxRune" using assms(1-4,6) unfolding MaxRune_def by auto
  show ?thesis using big small by (simp add: valid_rune_def)
qed

lemma encode_3:
  assumes "x \<le> 15" "y < 64" "z < 64" "x = 0 \<longrightarrow> 32 \<le> y" "x = 13 \<longrightarrow> y < 32"
  shows "go_EncodeRune (x * 4096 + y * 64 + z) = [char_of (224 + x), char_of (128 + y), char_of (128 + z)]"
proof -
  let ?r = "x * 4096 + y * 64 + z"
  have rng: "0x7FF < ?r" "?r \<le> 0xFFFF" "valid_rune ?r" using range_3 [OF assms] by simp_all
  then have ok: "\<not> (MaxRune < ?r \<or> (0xD800 \<le> ?r \<and> ?r \<le> 0xDFFF))"
    by (simp add: valid_rune_def)
  have d: "?r div 4096 = x" "?r div 64 mod 64 = y" "?r mod 64 = z"
    using assms(2,3) by (simp_all only: digits3 digit_simps)
  show ?thesis
    using rng unfolding go_EncodeRune_def Let_def if_not_P [OF ok] d by simp
qed

lemma encode_4:
  assumes "w \<le> 4" "x < 64" "y < 64" "z < 64" "w = 0 \<longrightarrow> 16 \<le> x" "w = 4 \<longrightarrow> x < 16"
  shows "go_EncodeRune (w * 262144 + x * 4096 + y * 64 + z) =
           [char_of (240 + w), char_of (128 + x), char_of (128 + y), char_of (128 + z)]"
proof -
  let ?r = "w * 262144 + x * 4096 + y * 64 + z"
  have rng: "0xFFFF < ?r" "valid_rune ?r" using range_4 [OF assms] by simp_all
  then have ok: "\<not> (MaxRune < ?r \<or> (0xD800 \<le> ?r \<and> ?r \<le> 0xDFFF))"
    by (simp add: valid_rune_def)
  have d: "?r div 262144 = w" "?r div 4096 mod 64 = x" "?r div 64 mod 64 = y" "?r mod 64 = z"
    using assms(2-4) by (simp_all only: digits4 digit_simps)
  show ?thesis
    using rng(1) unfolding go_EncodeRune_def Let_def if_not_P [OF ok] d by simp
qed

subsection \<open>Decoding the encodings of each width\<close>

lemma decode_2:
  assumes "2 \<le> x" "x \<le> 31" "y < 64"
  shows "go_DecodeRune (char_of (192 + x) # char_of (128 + y) # rest) = (x * 64 + y, 2)"
  using assms by (simp add: utf8_tables Let_def add_mod_small)

lemma decode_3:
  assumes "x \<le> 15" "y < 64" "z < 64" "x = 0 \<longrightarrow> 32 \<le> y" "x = 13 \<longrightarrow> y < 32"
  shows "go_DecodeRune (char_of (224 + x) # char_of (128 + y) # char_of (128 + z) # rest) =
           (x * 4096 + y * 64 + z, 3)"
  using assms by (simp add: utf8_tables Let_def add_mod_small) arith

lemma decode_4:
  assumes "w \<le> 4" "x < 64" "y < 64" "z < 64" "w = 0 \<longrightarrow> 16 \<le> x" "w = 4 \<longrightarrow> x < 16"
  shows "go_DecodeRune (char_of (240 + w) # char_of (128 + x) # char_of (128 + y) # char_of (128 + z) # rest) =
           (w * 262144 + x * 4096 + y * 64 + z, 4)"
  using assms by (simp add: utf8_tables Let_def add_mod_small) arith

text \<open>A valid rune is written in one of the four widths.\<close>

lemma rune_cases:
  assumes "valid_rune r"
  obtains (one) "r \<le> 0x7F"
  | (two) x y where "2 \<le> x" "x \<le> 31" "y < 64" "r = x * 64 + y"
  | (three) x y z where "x \<le> 15" "y < 64" "z < 64" "x = 0 \<longrightarrow> 32 \<le> y" "x = 13 \<longrightarrow> y < 32"
      "r = x * 4096 + y * 64 + z"
  | (four) w x y z where "w \<le> 4" "x < 64" "y < 64" "z < 64" "w = 0 \<longrightarrow> 16 \<le> x"
      "w = 4 \<longrightarrow> x < 16" "r = w * 262144 + x * 4096 + y * 64 + z"
proof -
  consider "r \<le> 0x7F" | "0x7F < r" "r \<le> 0x7FF" | "0x7FF < r" "r \<le> 0xFFFF" | "0xFFFF < r"
    by linarith
  then show ?thesis
  proof cases
    case 1
    then show ?thesis by (rule one)
  next
    case 2
    show ?thesis by (rule two [of "r div 64" "r mod 64"]) (use 2 in simp_all)
  next
    case 3
    define x y z where "x = r div 4096" and "y = r div 64 mod 64" and "z = r mod 64"
    have r: "r = x * 4096 + y * 64 + z" using split3 [of r] by (simp add: x_def y_def z_def)
    have yz: "y < 64" "z < 64" by (simp_all add: y_def z_def)
    have x: "x \<le> 15" using div_le_mono [OF 3(2), of 4096] by (simp add: x_def)
    have lo: "x = 0 \<longrightarrow> 32 \<le> y" using 3 yz r by simp
    have hi: "x = 13 \<longrightarrow> y < 32"
    proof
      assume "x = 13"
      with yz r have "r \<le> 0xDFFF" by linarith
      with assms have "r < 0xD800" by (simp add: valid_rune_def)
      with \<open>x = 13\<close> r show "y < 32" by linarith
    qed
    show ?thesis by (rule three [OF x yz lo hi r])
  next
    case 4
    define w x y z where "w = r div 262144" and "x = r div 4096 mod 64" and "y = r div 64 mod 64"
      and "z = r mod 64"
    have r: "r = w * 262144 + x * 4096 + y * 64 + z"
      using split4 [of r] by (simp add: w_def x_def y_def z_def)
    have xyz: "x < 64" "y < 64" "z < 64" by (simp_all add: x_def y_def z_def)
    have m: "r \<le> MaxRune" using assms by (simp add: valid_rune_def)
    have w: "w \<le> 4" using div_le_mono [OF m, of 262144] by (simp add: w_def MaxRune_def)
    have lo: "w = 0 \<longrightarrow> 16 \<le> x" using 4 xyz r by simp
    have hi: "w = 4 \<longrightarrow> x < 16" using m xyz r by (simp add: MaxRune_def)
    show ?thesis by (rule four [OF w xyz lo hi r])
  qed
qed

text \<open>Every valid rune decodes from its encoding, whatever follows it.\<close>

lemma decode_encode:
  assumes "valid_rune r"
  shows "go_DecodeRune (go_EncodeRune r @ rest) = (r, length (go_EncodeRune r))"
  using assms
proof (cases rule: rune_cases)
  case one
  then show ?thesis by (simp add: go_EncodeRune_def)
next
  case (two x y)
  then show ?thesis using encode_2 [OF two(1-3)] decode_2 [OF two(1-3), of rest] by simp
next
  case (three x y z)
  then show ?thesis using encode_3 [OF three(1-5)] decode_3 [OF three(1-5), of rest] by simp
next
  case (four w x y z)
  then show ?thesis using encode_4 [OF four(1-6)] decode_4 [OF four(1-6), of rest] by simp
qed


lemma decode_inv_2:
  assumes dec: "go_DecodeRune (c0 # cs) = (r, n)" and ok: "(r, n) \<noteq> (RuneError, 1)"
    and p0: "194 \<le> (of_char c0 :: nat)" "of_char c0 \<le> (223::nat)"
  shows "take n (c0 # cs) = go_EncodeRune r \<and> valid_rune r"
proof -
  have acc: "utf8_accept (of_char c0) = Some (2, 0x80, 0xBF)"
    using p0 by (simp add: utf8_accept_def)
  have "cs \<noteq> [] \<and> 128 \<le> (of_char (cs ! 0) :: nat) \<and> of_char (cs ! 0) \<le> (191::nat)"
    using dec ok acc p0 by (auto simp: Let_def split: if_splits)
  then have b: "cs \<noteq> []" "128 \<le> (of_char (cs ! 0) :: nat)" "of_char (cs ! 0) \<le> (191::nat)"
    by simp_all
  define x y where "x = (of_char c0 :: nat) - 192" and "y = (of_char (cs ! 0) :: nat) - 128"
  have xy: "2 \<le> x" "x \<le> 31" "y < 64" using p0 b by (simp_all add: x_def y_def)
  have s: "c0 # cs = char_of (192 + x) # char_of (128 + y) # drop 1 cs"
    using p0 b list_split_1 [OF b(1)] by (simp add: x_def y_def)
  have "(r, n) = (x * 64 + y, 2)" using dec decode_2 [OF xy, of "drop 1 cs"] by (simp only: s)
  then show ?thesis
    using encode_2 [OF xy] xy unfolding s by (simp add: valid_rune_def MaxRune_def)
qed

lemma decode_inv_3:
  assumes dec: "go_DecodeRune (c0 # cs) = (r, n)" and ok: "(r, n) \<noteq> (RuneError, 1)"
    and p0: "224 \<le> (of_char c0 :: nat)" "of_char c0 \<le> (239::nat)"
  shows "take n (c0 # cs) = go_EncodeRune r \<and> valid_rune r"
proof -
  let ?p0 = "of_char c0 :: nat" and ?b1 = "of_char (cs ! 0) :: nat" and ?b2 = "of_char (cs ! 1) :: nat"
  have "1 < length cs \<and> 128 \<le> ?b1 \<and> ?b1 \<le> 191 \<and> (?p0 = 224 \<longrightarrow> 160 \<le> ?b1) \<and>
        (?p0 = 237 \<longrightarrow> ?b1 \<le> 159) \<and> 128 \<le> ?b2 \<and> ?b2 \<le> 191"
    using dec ok p0 by (auto simp: utf8_tables Let_def split: if_splits)
  then have b: "1 < length cs" "128 \<le> ?b1" "?b1 \<le> 191" "?p0 = 224 \<longrightarrow> 160 \<le> ?b1"
      "?p0 = 237 \<longrightarrow> ?b1 \<le> 159" "128 \<le> ?b2" "?b2 \<le> 191"
    by simp_all
  define x y z where "x = ?p0 - 224" and "y = ?b1 - 128" and "z = ?b2 - 128"
  have xyz: "x \<le> 15" "y < 64" "z < 64" "x = 0 \<longrightarrow> 32 \<le> y" "x = 13 \<longrightarrow> y < 32"
    using p0 b by (simp_all add: x_def y_def z_def) linarith+
  have s: "c0 # cs = char_of (224 + x) # char_of (128 + y) # char_of (128 + z) # drop 2 cs"
    using p0 b list_split_2 [OF b(1)] by (simp add: x_def y_def z_def)
  have "(r, n) = (x * 4096 + y * 64 + z, 3)"
    using dec decode_3 [OF xyz, of "drop 2 cs"] by (simp only: s)
  then show ?thesis
    using encode_3 [OF xyz] range_3 [OF xyz] unfolding s by simp
qed

lemma decode_inv_4:
  assumes dec: "go_DecodeRune (c0 # cs) = (r, n)" and ok: "(r, n) \<noteq> (RuneError, 1)"
    and p0: "240 \<le> (of_char c0 :: nat)" "of_char c0 \<le> (244::nat)"
  shows "take n (c0 # cs) = go_EncodeRune r \<and> valid_rune r"
proof -
  let ?p0 = "of_char c0 :: nat" and ?b1 = "of_char (cs ! 0) :: nat" and ?b2 = "of_char (cs ! 1) :: nat"
    and ?b3 = "of_char (cs ! 2) :: nat"
  have "2 < length cs \<and> 128 \<le> ?b1 \<and> ?b1 \<le> 191 \<and> (?p0 = 240 \<longrightarrow> 144 \<le> ?b1) \<and>
        (?p0 = 244 \<longrightarrow> ?b1 \<le> 143) \<and> 128 \<le> ?b2 \<and> ?b2 \<le> 191 \<and> 128 \<le> ?b3 \<and> ?b3 \<le> 191"
    using dec ok p0 by (auto simp: utf8_tables Let_def split: if_splits)
  then have b: "2 < length cs" "128 \<le> ?b1" "?b1 \<le> 191" "?p0 = 240 \<longrightarrow> 144 \<le> ?b1"
      "?p0 = 244 \<longrightarrow> ?b1 \<le> 143" "128 \<le> ?b2" "?b2 \<le> 191" "128 \<le> ?b3" "?b3 \<le> 191"
    by simp_all
  define w x y z where "w = ?p0 - 240" and "x = ?b1 - 128" and "y = ?b2 - 128" and "z = ?b3 - 128"
  have wxyz: "w \<le> 4" "x < 64" "y < 64" "z < 64" "w = 0 \<longrightarrow> 16 \<le> x" "w = 4 \<longrightarrow> x < 16"
    using p0 b by (simp_all add: w_def x_def y_def z_def) linarith+
  have s: "c0 # cs = char_of (240 + w) # char_of (128 + x) # char_of (128 + y) # char_of (128 + z) # drop 3 cs"
    using p0 b list_split_3 [OF b(1)] by (simp add: w_def x_def y_def z_def)
  have "(r, n) = (w * 262144 + x * 4096 + y * 64 + z, 4)"
    using dec decode_4 [OF wxyz, of "drop 3 cs"] by (simp only: s)
  then show ?thesis
    using encode_4 [OF wxyz] range_4 [OF wxyz] unfolding s by simp
qed

lemma decode_invalid_lead:
  assumes "128 \<le> (of_char c0 :: nat)" "of_char c0 < (194::nat) \<or> 244 < (of_char c0 :: nat)"
  shows "go_DecodeRune (c0 # cs) = (RuneError, 1)"
proof -
  have "utf8_accept (of_char c0) = None" using assms by (auto simp: utf8_accept_def)
  then show ?thesis using assms(1) by simp
qed

lemma decode_valid_encoding:
  assumes dec: "go_DecodeRune s = (r, n)" and ok: "(r, n) \<noteq> (RuneError, 1)" and ne: "s \<noteq> []"
  shows "take n s = go_EncodeRune r \<and> valid_rune r"
proof -
  obtain c0 cs where s: "s = c0 # cs" using ne by (cases s) simp_all
  let ?p0 = "of_char c0 :: nat"
  consider "?p0 < 128" | "128 \<le> ?p0" "?p0 < 194 \<or> 244 < ?p0" | "194 \<le> ?p0" "?p0 \<le> 223"
    | "224 \<le> ?p0" "?p0 \<le> 239" | "240 \<le> ?p0" "?p0 \<le> 244"
    by linarith
  then show ?thesis
  proof cases
    case 1
    then have "r = ?p0" "n = 1" using dec unfolding s by simp_all
    then show ?thesis using 1 unfolding s by (simp add: go_EncodeRune_def valid_rune_def MaxRune_def)
  next
    case 2
    then have "go_DecodeRune s = (RuneError, 1)" unfolding s by (rule decode_invalid_lead)
    with dec ok show ?thesis by simp
  next
    case 3
    then show ?thesis using decode_inv_2 dec ok unfolding s by blast
  next
    case 4
    then show ?thesis using decode_inv_3 dec ok unfolding s by blast
  next
    case 5
    then show ?thesis using decode_inv_4 dec ok unfolding s by blast
  qed
qed

lemma accept_size: "utf8_accept b = Some (sz, lo, hi) \<Longrightarrow> 2 \<le> sz \<and> sz \<le> 4"
  by (simp add: utf8_accept_def split: if_splits)

lemma decode_width_Cons:
  "(r, n) = go_DecodeRune (c # s) \<Longrightarrow> 1 \<le> n \<and> n \<le> Suc (length s)"
  by (auto simp: Let_def Suc_le_eq split: option.splits if_splits dest!: accept_size)

lemma decode_width:
  "go_DecodeRune s = (r, n) \<Longrightarrow> n \<le> length s \<and> n \<le> 4 \<and> (s \<noteq> [] \<longrightarrow> 1 \<le> n)"
  by (cases s) (auto simp: Let_def Suc_le_eq split: option.splits if_splits dest!: accept_size)

subsection \<open>Decoding the last rune\<close>

lemma rune_start_iff: "rune_start c \<longleftrightarrow> \<not> is_cont (of_char c)"
proof -
  have "(of_char c :: nat) div 64 = 2 \<longleftrightarrow> 128 \<le> (of_char c :: nat) \<and> (of_char c :: nat) \<le> 191"
    by linarith
  then show ?thesis by (simp add: rune_start_def is_cont_def)
qed

lemma encode_multi:
  assumes "valid_rune r" "0x7F < r"
  obtains c cs where "go_EncodeRune r = c # cs" "rune_start c" "RuneSelf \<le> of_char c" "cs \<noteq> []"
    "length cs \<le> 3" "\<forall>b \<in> set cs. is_cont (of_char b)"
  using assms(1)
proof (cases rule: rune_cases)
  case one
  then show ?thesis using assms(2) by simp
next
  case (two x y)
  then show ?thesis using encode_2 [OF two(1-3)]
    by (intro that [of "char_of (192 + x)" "[char_of (128 + y)]"])
       (simp_all add: rune_start_def RuneSelf_def is_cont_def)
next
  case (three x y z)
  then show ?thesis using encode_3 [OF three(1-5)]
    by (intro that [of "char_of (224 + x)" "[char_of (128 + y), char_of (128 + z)]"])
       (simp_all add: rune_start_def RuneSelf_def is_cont_def)
next
  case (four w x y z)
  then show ?thesis using encode_4 [OF four(1-6)]
    by (intro that [of "char_of (240 + w)" "[char_of (128 + x), char_of (128 + y), char_of (128 + z)]"])
       (simp_all add: rune_start_def RuneSelf_def is_cont_def)
qed

lemma scan_start_le: "scan_start p start lim \<le> start"
proof (induction p start lim rule: scan_start.induct)
  case (1 p start lim)
  show ?case
  proof (cases "start < lim \<or> rune_start (p ! nat start)")
    case True
    then show ?thesis by (subst scan_start.simps) auto
  next
    case False
    then have "scan_start p (start - 1) lim \<le> start - 1" using "1.IH" by simp
    then show ?thesis using False by (subst scan_start.simps) simp
  qed
qed

lemma scan_start_stop:
  "lim \<le> int k \<Longrightarrow> int k \<le> start \<Longrightarrow> rune_start (p ! k) \<Longrightarrow>
   (\<forall>j. int k < j \<and> j \<le> start \<longrightarrow> \<not> rune_start (p ! nat j)) \<Longrightarrow> scan_start p start lim = int k"
proof (induction p start lim rule: scan_start.induct)
  case (1 p start lim)
  show ?case
  proof (cases "start = int k")
    case True
    then show ?thesis using "1.prems" by (subst scan_start.simps) simp
  next
    case False
    then have "int k < start" using "1.prems"(2) by simp
    then have "\<not> rune_start (p ! nat start)" "\<not> start < lim" using "1.prems" by auto
    then show ?thesis using "1.IH" "1.prems" \<open>int k < start\<close> by (subst scan_start.simps) simp
  qed
qed

lemma decode_last_encode:
  assumes "valid_rune r"
  shows "go_DecodeLastRune (t @ go_EncodeRune r) = (r, length (go_EncodeRune r))"
proof (cases "r \<le> 0x7F")
  case True
  then show ?thesis by (simp add: go_DecodeLastRune_def go_EncodeRune_def RuneSelf_def nth_append)
next
  case False
  then obtain c cs where e: "go_EncodeRune r = c # cs" and c: "rune_start c" "RuneSelf \<le> of_char c"
    and cs: "cs \<noteq> []" "length cs \<le> 3" "\<forall>b \<in> set cs. is_cont (of_char b)"
    using encode_multi [OF assms] by (metis not_le)
  define p where "p = t @ c # cs"
  let ?n = "length t" and ?m = "length cs"
  have lp: "length p = ?n + 1 + ?m" by (simp add: p_def)
  have last: "\<not> (of_char (p ! nat (int (length p) - 1)) :: nat) < RuneSelf"
  proof -
    have i: "nat (int (length p) - 1) = ?n + ?m" by (simp add: lp)
    have "p ! (?n + ?m) = cs ! (?m - 1)" using cs(1) by (simp add: p_def nth_append nth_Cons')
    then have "p ! nat (int (length p) - 1) \<in> set cs" using cs(1) by (simp add: i)
    then show ?thesis using cs(3) by (auto simp: is_cont_def RuneSelf_def)
  qed
  have scan: "scan_start p (int (length p) - 1 - 1)
                (if int (length p) - UTFMax < 0 then 0 else int (length p) - UTFMax) = int ?n"
  proof (rule scan_start_stop)
    show "(if int (length p) - UTFMax < 0 then 0 else int (length p) - UTFMax) \<le> int ?n"
      using cs(2) by (simp add: UTFMax_def lp)
    show "int ?n \<le> int (length p) - 1 - 1" using cs(1) by (simp add: lp)
    show "rune_start (p ! ?n)" using c(1) by (simp add: p_def)
    show "\<forall>j. int ?n < j \<and> j \<le> int (length p) - 1 - 1 \<longrightarrow> \<not> rune_start (p ! nat j)"
    proof (intro allI impI)
      fix j :: int
      assume j: "int ?n < j \<and> j \<le> int (length p) - 1 - 1"
      define k where "k = nat j"
      have k: "?n < k" "k < ?n + ?m" using j lp unfolding k_def by arith+
      have "p ! k = (c # cs) ! (k - ?n)" using k by (simp add: p_def nth_append)
      also have "\<dots> = cs ! (k - ?n - 1)" using k by (simp add: nth_Cons')
      finally have "p ! nat j \<in> set cs" using k by (simp add: k_def)
      then show "\<not> rune_start (p ! nat j)" using cs(3) by (simp add: rune_start_iff)
    qed
  qed
  have dec: "go_DecodeRune (drop (nat (int ?n)) p) = (r, Suc ?m)"
    using decode_encode [OF assms, of "[]"] e by (simp add: p_def)
  have ne: "int (length p) \<noteq> 0" "int ?n + int (Suc ?m) = int (length p)" by (simp_all add: lp)
  have "go_DecodeLastRune p = (r, Suc ?m)"
    using last scan dec ne unfolding go_DecodeLastRune_def Let_def by (simp del: go_DecodeRune.simps)
  then show ?thesis using e by (simp add: p_def)
qed

lemma decode_last_decode:
  assumes dl: "go_DecodeLastRune s = (r, w)" and ne: "s \<noteq> []"
    and ok: "(r, w) \<noteq> (RuneError, 1)"
  shows "0 < w \<and> w \<le> length s \<and> go_DecodeRune (drop (length s - w) s) = (r, w)"
proof (cases "(of_char (s ! nat (int (length s) - 1)) :: nat) < RuneSelf")
  case True
  have ix: "nat (int (length s) - 1) = length s - 1" by simp
  from True have "go_DecodeLastRune s = (of_char (s ! (length s - 1)), 1)"
    using ne unfolding go_DecodeLastRune_def Let_def ix by simp
  with dl [symmetric] have "(r, w) = (of_char (s ! (length s - 1)), 1)" by (rule trans)
  then have r: "r = of_char (s ! (length s - 1))" and w: "w = 1" by simp_all
  have "drop (length s - 1) s = [s ! (length s - 1)]"
    using ne by (cases s rule: rev_cases) simp_all
  then show ?thesis using True ne unfolding r w ix by (simp add: RuneSelf_def Suc_le_eq)
next
  case False
  define lim where "lim = (if int (length s) - UTFMax < 0 then 0 else int (length s) - UTFMax)"
  define st0 where "st0 = scan_start s (int (length s) - 1 - 1) lim"
  define st where "st = (if st0 < 0 then 0 else st0)"
  obtain r' size where d: "go_DecodeRune (drop (nat st) s) = (r', size)" by fastforce
  have "go_DecodeLastRune s =
          (if st + int size \<noteq> int (length s) then (RuneError, 1) else (r', size))"
    using False ne d unfolding go_DecodeLastRune_def Let_def lim_def [symmetric] st0_def [symmetric]
      st_def [symmetric] by (simp add: nat_diff_distrib del: go_DecodeRune.simps)
  then have eq: "st + int size = int (length s)" "(r, w) = (r', size)" using dl ok
    by (simp_all split: if_splits)
  have "st0 \<le> int (length s) - 2" using scan_start_le [of s "int (length s) - 1 - 1" lim]
    by (simp add: st0_def)
  then have "0 \<le> st" "st < int (length s)" using ne by (auto simp: st_def)
  then have "nat st = length s - w" "w \<le> length s" "0 < w" using eq by simp_all
  then show ?thesis using d eq by simp
qed

lemma decode_last_width:
  assumes "go_DecodeLastRune s = (r, w)"
  shows "w \<le> length s \<and> (s \<noteq> [] \<longrightarrow> 1 \<le> w)"
proof (cases "s = []")
  case True
  then show ?thesis using assms by (simp add: go_DecodeLastRune_def)
next
  case ne: False
  show ?thesis
  proof (cases "(r, w) = (RuneError, 1)")
    case True
    then show ?thesis using ne by (simp add: Suc_le_eq)
  next
    case False
    then show ?thesis using decode_last_decode [OF assms ne] by simp
  qed
qed

lemma decode_last_valid_encoding:
  assumes "go_DecodeLastRune s = (r, w)" "s \<noteq> []" "(r, w) \<noteq> (RuneError, 1)"
  shows "drop (length s - w) s = go_EncodeRune r \<and> valid_rune r"
proof -
  have w: "0 < w" "w \<le> length s" and d: "go_DecodeRune (drop (length s - w) s) = (r, w)"
    using decode_last_decode [OF assms] by simp_all
  have t: "take w (drop (length s - w) s) = drop (length s - w) s" using w by simp
  have ne: "drop (length s - w) s \<noteq> []" using w by simp
  from decode_valid_encoding [OF d assms(3) ne] show ?thesis by (simp only: t)
qed

subsection \<open>Bytes at the edges of an encoding\<close>

lemma accept_range: "utf8_accept b = Some (sz, lo, hi) \<Longrightarrow> 2 \<le> sz \<and> 0x80 \<le> lo \<and> hi \<le> 0xBF"
  by (simp add: utf8_accept_def split: if_splits)

lemma decode_width_one:
  assumes "RuneSelf \<le> (of_char c :: nat)" and "u = [] \<or> \<not> is_cont (of_char (hd u))"
  shows "snd (go_DecodeRune (c # u)) = 1"
proof (cases "utf8_accept (of_char c)")
  case None
  then show ?thesis using assms(1) by (simp add: RuneSelf_def)
next
  case (Some a)
  then obtain sz lo hi where a: "utf8_accept (of_char c) = Some (sz, lo, hi)" by (cases a) auto
  then have r: "2 \<le> sz" "0x80 \<le> lo" "hi \<le> 0xBF" using accept_range by blast+
  show ?thesis
  proof (cases u)
    case Nil
    then show ?thesis using assms(1) a r by (simp add: RuneSelf_def)
  next
    case (Cons b u')
    then have "(of_char b :: nat) < lo \<or> hi < of_char b" using assms(2) r by (auto simp: is_cont_def)
    then show ?thesis using assms(1) a r Cons by (simp add: RuneSelf_def Let_def)
  qed
qed

lemma encode_hd_not_cont: "valid_rune r \<Longrightarrow> \<not> is_cont (of_char (hd (go_EncodeRune r)))"
proof (cases "r \<le> 0x7F")
  case True
  then show ?thesis by (simp add: go_EncodeRune_def is_cont_def)
next
  case False
  assume v: "valid_rune r"
  obtain c cs where "go_EncodeRune r = c # cs" "rune_start c"
    using encode_multi [OF v] False by (metis not_le)
  then show ?thesis by (simp add: rune_start_iff)
qed

lemma encode_ascii_head: "valid_rune r \<Longrightarrow> (of_char (hd (go_EncodeRune r)) :: nat) < RuneSelf \<Longrightarrow>
    length (go_EncodeRune r) = 1"
proof (cases "r \<le> 0x7F")
  case True
  then show ?thesis by (simp add: go_EncodeRune_def)
next
  case False
  assume v: "valid_rune r" and h: "(of_char (hd (go_EncodeRune r)) :: nat) < RuneSelf"
  obtain c cs where "go_EncodeRune r = c # cs" "RuneSelf \<le> of_char c"
    using encode_multi [OF v] False by (metis not_le)
  then show ?thesis using h by simp
qed

lemma decode_ascii: "(of_char c :: nat) < RuneSelf \<Longrightarrow> go_DecodeRune (c # cs) = (of_char c, 1)"
  by (simp add: RuneSelf_def)

lemma decode_last_ascii:
  "(of_char c :: nat) < RuneSelf \<Longrightarrow> go_DecodeLastRune (s @ [c]) = (of_char c, 1)"
  by (simp add: go_DecodeLastRune_def Let_def nth_append)

subsection \<open>Properties of the UTF-8 routines\<close>

text \<open>
  C26: a valid rune survives encoding: \<open>DecodeRune\<close> reads it back, with the width of
  its encoding, from any string that begins with the encoding, and \<open>DecodeLastRune\<close>
  from any string that ends with it; the encoding has 1 to 4 bytes.
\<close>

theorem utf8_roundtrip:
  assumes "valid_rune r"
  shows "go_DecodeRune (go_EncodeRune r @ rest) = (r, length (go_EncodeRune r)) \<and>
         go_DecodeLastRune (t @ go_EncodeRune r) = (r, length (go_EncodeRune r)) \<and>
         1 \<le> length (go_EncodeRune r) \<and> length (go_EncodeRune r) \<le> 4"
proof -
  have d: "go_DecodeRune (go_EncodeRune r @ []) = (r, length (go_EncodeRune r))"
    by (rule decode_encode [OF assms])
  have "go_EncodeRune r \<noteq> []" by (simp add: go_EncodeRune_def Let_def)
  then have "1 \<le> length (go_EncodeRune r) \<and> length (go_EncodeRune r) \<le> 4"
    using decode_width [OF d] by simp
  then show ?thesis using decode_encode [OF assms] decode_last_encode [OF assms] by simp
qed

theorem utf8_roundtrip_witness:
  "valid_rune 0x10348 \<and>
   go_DecodeRune (go_EncodeRune 0x10348 @ ''!'') = (0x10348, 4) \<and>
   go_DecodeLastRune (''a'' @ go_EncodeRune 0x10348) = (0x10348, 4)"
  using utf8_roundtrip [of "0x10348" "''!''" "''a''"]
  by (simp add: valid_rune_def MaxRune_def go_EncodeRune_def)

text \<open>
  C27: a successful \<open>DecodeRune\<close> (any result but \<open>(RuneError, 1)\<close> on a non-empty
  input) reads exactly the encoding of a valid rune: the input begins with the encoding
  of the rune returned, and the width returned is its length.
\<close>

theorem utf8_decode_sound:
  assumes "go_DecodeRune s = (r, n)" and "(r, n) \<noteq> (RuneError, 1)" and "s \<noteq> []"
  shows "s = go_EncodeRune r @ drop n s \<and> n = length (go_EncodeRune r) \<and> valid_rune r"
proof -
  have e: "take n s = go_EncodeRune r \<and> valid_rune r" by (rule decode_valid_encoding [OF assms])
  have "n \<le> length s" using decode_width [OF assms(1)] by simp
  then have "length (go_EncodeRune r) = n" using e by (metis length_take min_absorb2)
  then show ?thesis using e by (metis append_take_drop_id)
qed

theorem utf8_decode_sound_witness:
  "go_DecodeRune [CHR 0xE2, CHR 0x82, CHR 0xAC, CHR ''x''] = (0x20AC, 3) \<and>
   [CHR 0xE2, CHR 0x82, CHR 0xAC, CHR ''x''] = go_EncodeRune 0x20AC @ [CHR ''x'']"
proof -
  have d: "go_DecodeRune [CHR 0xE2, CHR 0x82, CHR 0xAC, CHR ''x''] = (0x20AC, 3)"
    by (simp add: utf8_tables Let_def)
  show ?thesis
    using utf8_decode_sound [OF d] d by (simp add: RuneError_def)
qed

text \<open>
  The same for \<open>DecodeLastRune\<close>: a result other than \<open>(RuneError, 1)\<close> on a
  non-empty input means the input ends with the encoding of the valid rune returned.
\<close>

theorem utf8_decode_last_sound:
  assumes "go_DecodeLastRune s = (r, n)" and "(r, n) \<noteq> (RuneError, 1)" and "s \<noteq> []"
  shows "s = take (length s - n) s @ go_EncodeRune r \<and> n = length (go_EncodeRune r) \<and> valid_rune r"
proof -
  have e: "drop (length s - n) s = go_EncodeRune r \<and> valid_rune r"
    by (rule decode_last_valid_encoding [OF assms(1,3,2)])
  have "n \<le> length s" using decode_last_decode [OF assms(1,3,2)] by simp
  then have "length (go_EncodeRune r) = n" using e by (metis length_drop diff_diff_cancel)
  then show ?thesis using e by (metis append_take_drop_id)
qed

theorem utf8_decode_last_sound_witness:
  "go_DecodeLastRune [CHR ''x'', CHR 0xC2, CHR 0xA0] = (0xA0, 2) \<and>
   [CHR ''x'', CHR 0xC2, CHR 0xA0] = [CHR ''x''] @ go_EncodeRune 0xA0"
proof -
  have d: "go_DecodeLastRune [CHR ''x'', CHR 0xC2, CHR 0xA0] = (0xA0, 2)"
    by (simp add: go_DecodeLastRune_def scan_start.simps rune_start_def RuneSelf_def UTFMax_def
        utf8_tables Let_def)
  show ?thesis
    using utf8_decode_last_sound [OF d] d by (simp add: RuneError_def)
qed

text \<open>
  C28: whatever the input, valid or not, both decoders return a valid rune: the rune
  read, or \<open>RuneError\<close>.
\<close>

theorem utf8_decode_valid:
  "valid_rune (fst (go_DecodeRune s)) \<and> valid_rune (fst (go_DecodeLastRune s))"
proof -
  have err: "valid_rune RuneError" by (simp add: valid_rune_def RuneError_def MaxRune_def)
  obtain r n where d: "go_DecodeRune s = (r, n)" by fastforce
  obtain r' n' where d': "go_DecodeLastRune s = (r', n')" by fastforce
  have "valid_rune r"
    using decode_valid_encoding [OF d] err d by (cases "s = []") (auto simp: RuneError_def)
  moreover have "valid_rune r'"
  proof (cases "s = [] \<or> (r', n') = (RuneError, 1)")
    case True
    then show ?thesis using err d' by (auto simp: go_DecodeLastRune_def)
  next
    case False
    then show ?thesis using decode_last_valid_encoding [OF d'] by simp
  qed
  ultimately show ?thesis using d d' by simp
qed

theorem utf8_decode_valid_witness:
  "valid_rune (fst (go_DecodeRune [CHR 0xFF])) \<and> valid_rune (fst (go_DecodeLastRune [CHR 0xFF]))"
  using utf8_decode_valid [of "[CHR 0xFF]"] by simp

text \<open>
  C29: the widths: at most 4 bytes and at most the input, and at least one byte of a
  non-empty input, for both decoders. The loops of \<open>strings\<close> that step by these widths
  (\<open>indexFunc\<close>, \<open>lastIndexFunc\<close>) therefore advance on every iteration.
\<close>

theorem utf8_width_bounds:
  "snd (go_DecodeRune s) \<le> min 4 (length s) \<and> snd (go_DecodeLastRune s) \<le> min 4 (length s) \<and>
   (s \<noteq> [] \<longrightarrow> 1 \<le> snd (go_DecodeRune s) \<and> 1 \<le> snd (go_DecodeLastRune s))"
proof -
  obtain r n where d: "go_DecodeRune s = (r, n)" by fastforce
  obtain r' n' where d': "go_DecodeLastRune s = (r', n')" by fastforce
  have last4: "n' \<le> 4"
  proof (cases "s = [] \<or> (r', n') = (RuneError, 1)")
    case True
    then show ?thesis using d' by (auto simp: go_DecodeLastRune_def)
  next
    case False
    then have "go_DecodeRune (drop (length s - n') s) = (r', n')"
      using decode_last_decode [OF d'] by simp
    then show ?thesis using decode_width by blast
  qed
  show ?thesis using decode_width [OF d] decode_last_width [OF d'] last4 d d' by simp
qed

theorem utf8_width_bounds_witness:
  "[CHR 0xE2, CHR 0x82] \<noteq> [] \<and> go_DecodeRune [CHR 0xE2, CHR 0x82] = (RuneError, 1) \<and>
   1 \<le> snd (go_DecodeLastRune [CHR 0xE2, CHR 0x82])"
proof -
  have "go_DecodeRune [CHR 0xE2, CHR 0x82] = (RuneError, 1)" by (simp add: utf8_tables Let_def)
  then show ?thesis using utf8_width_bounds [of "[CHR 0xE2, CHR 0x82]"] by simp
qed

end
