(* ===== verification/Go_Trim.thy ===== *)
theory Go_Trim
  imports Go_Strings Unicode_Space
begin

text \<open>
  \<open>strings.TrimSpace\<close> as the Go library writes it: an ASCII fast path from both ends,
  falling back to \<open>TrimFunc\<close> and \<open>TrimRightFunc\<close> with \<open>unicode.IsSpace\<close>, which walk
  the string rune by rune through \<open>utf8.DecodeRune\<close> and \<open>utf8.DecodeLastRune\<close>
  (\<open>strings/strings.go\<close>). The lemmas prove it equal to \<open>go_TrimSpace\<close>, the model
  of \<open>Go_Strings\<close> that matches the UTF-8 encodings of the white-space runes as byte
  patterns: the program's \<open>TrimSpace\<close> calls (lines 93 and 67 of \<open>crtRecon.go\<close>)
  rest on that model.
\<close>

subsection \<open>The rune loops\<close>

text \<open>
  \<open>indexFunc(s, f, truth)\<close>: \<open>for i, r := range s { if f(r) == truth { return i } }\<close>,
  then \<open>-1\<close>. Ranging over a string decodes as \<open>utf8.DecodeRuneInString\<close>.
\<close>

function index_func_from :: "(rune \<Rightarrow> bool) \<Rightarrow> bool \<Rightarrow> go_string \<Rightarrow> nat \<Rightarrow> int" where
  "index_func_from f truth s i =
     (if i < length s then
        (let (r, w) = go_DecodeRune (drop i s) in
         if f r = truth then int i else index_func_from f truth s (i + w))
      else -1)"
  by pat_completeness auto
termination
proof (relation "measure (\<lambda>(f, truth, s, i). length s - i)")
  fix f :: "rune \<Rightarrow> bool" and truth s i x r w
  assume i: "i < length s" and x: "x = go_DecodeRune (drop i s)" and rw: "(r, w) = x"
  then have "1 \<le> w" using decode_width [of "drop i s" r w] by simp
  with i show "((f, truth, s, i + w), f, truth, s, i) \<in> measure (\<lambda>(f, truth, s, i). length s - i)"
    by simp
qed simp

declare index_func_from.simps [simp del]

definition go_indexFunc :: "go_string \<Rightarrow> (rune \<Rightarrow> bool) \<Rightarrow> bool \<Rightarrow> int" where
  "go_indexFunc s f truth = index_func_from f truth s 0"

text \<open>
  \<open>lastIndexFunc(s, f, truth)\<close>:
  \<open>for i := len(s); i > 0; { r, size := utf8.DecodeLastRuneInString(s[0:i]); i -= size;
  if f(r) == truth { return i } }\<close>, then \<open>-1\<close>. The loop variable \<open>i\<close> is the length of
  the prefix \<open>s[0:i]\<close> still to scan; the recursion passes that prefix.
\<close>

function last_index_from :: "(rune \<Rightarrow> bool) \<Rightarrow> bool \<Rightarrow> go_string \<Rightarrow> int" where
  "last_index_from f truth p =
     (if 0 < length p then
        (let (r, size) = go_DecodeLastRune p; i = length p - size in
         if f r = truth then int i else last_index_from f truth (take i p))
      else -1)"
  by pat_completeness auto
termination
proof (relation "measure (\<lambda>(f, truth, p). length p)", goal_cases)
  case (2 f truth p x r size i)
  then have "1 \<le> size" using decode_last_width [of p r size] by simp
  with 2 show ?case by simp
qed simp

declare last_index_from.simps [simp del]

definition go_lastIndexFunc :: "go_string \<Rightarrow> (rune \<Rightarrow> bool) \<Rightarrow> bool \<Rightarrow> int" where
  "go_lastIndexFunc s f truth = last_index_from f truth s"

text \<open>\<open>TrimLeftFunc(s, f)\<close>: \<open>i := indexFunc(s, f, false); if i == -1 { return "" }; return s[i:]\<close>.\<close>

definition go_TrimLeftFunc :: "go_string \<Rightarrow> (rune \<Rightarrow> bool) \<Rightarrow> go_string" where
  "go_TrimLeftFunc s f = (let i = go_indexFunc s f False in if i = -1 then [] else drop (nat i) s)"

text \<open>
  \<open>TrimRightFunc(s, f)\<close>: \<open>i := lastIndexFunc(s, f, false)\<close>; if \<open>i >= 0 && s[i] >=
  utf8.RuneSelf\<close>, step over the rune there as \<open>DecodeRuneInString(s[i:])\<close> reads it,
  else \<open>i++\<close>; return \<open>s[0:i]\<close>.
\<close>

definition go_TrimRightFunc :: "go_string \<Rightarrow> (rune \<Rightarrow> bool) \<Rightarrow> go_string" where
  "go_TrimRightFunc s f =
     (let i = go_lastIndexFunc s f False in
      if 0 \<le> i \<and> RuneSelf \<le> of_char (s ! nat i)
      then (let wid = snd (go_DecodeRune (drop (nat i) s)) in take (nat i + wid) s)
      else take (nat (i + 1)) s)"

text \<open>\<open>TrimFunc(s, f)\<close>: \<open>TrimRightFunc(TrimLeftFunc(s, f), f)\<close>.\<close>

definition go_TrimFunc :: "go_string \<Rightarrow> (rune \<Rightarrow> bool) \<Rightarrow> go_string" where
  "go_TrimFunc s f = go_TrimRightFunc (go_TrimLeftFunc s f) f"

subsection \<open>The ASCII fast path of \<open>TrimSpace\<close>\<close>

text \<open>\<open>asciiSpace\<close>: the table that is 1 at \<open>'\t', '\n', '\v', '\f', '\r', ' '\<close>.\<close>

definition asciiSpace :: "byte \<Rightarrow> bool" where
  "asciiSpace c \<longleftrightarrow> (of_char c :: nat) \<in> set [0x09, 0x0A, 0x0B, 0x0C, 0x0D, 0x20]"

text \<open>
  The first loop: \<open>for ; start < len(s); start++ { c := s[start]; if c >= utf8.RuneSelf
  { return TrimFunc(s[start:], unicode.IsSpace) }; if asciiSpace[c] == 0 { break } }\<close>.
  \<open>Inl start\<close> is the early return, \<open>Inr start\<close> the index after the loop.
\<close>

function trim_space_start :: "go_string \<Rightarrow> nat \<Rightarrow> nat + nat" where
  "trim_space_start s start =
     (if start < length s then
        (let c = s ! start in
         if RuneSelf \<le> of_char c then Inl start
         else if \<not> asciiSpace c then Inr start
         else trim_space_start s (start + 1))
      else Inr start)"
  by pat_completeness auto
termination
  by (relation "measure (\<lambda>(s, start). length s - start)") auto

declare trim_space_start.simps [simp del]

text \<open>
  The second loop: \<open>for ; stop > start; stop-- { c := s[stop-1]; if c >= utf8.RuneSelf
  { return TrimRightFunc(s[start:stop], unicode.IsSpace) }; if asciiSpace[c] == 0
  { break } }\<close>.
\<close>

function trim_space_stop :: "go_string \<Rightarrow> nat \<Rightarrow> nat \<Rightarrow> nat + nat" where
  "trim_space_stop s start stop =
     (if start < stop then
        (let c = s ! (stop - 1) in
         if RuneSelf \<le> of_char c then Inl stop
         else if \<not> asciiSpace c then Inr stop
         else trim_space_stop s start (stop - 1))
      else Inr stop)"
  by pat_completeness auto
termination
  by (relation "measure (\<lambda>(s, start, stop). stop)") auto

declare trim_space_stop.simps [simp del]

text \<open>\<open>strings.TrimSpace(s)\<close>; \<open>s[start:stop]\<close> is \<open>take (stop - start) (drop start s)\<close>.\<close>

definition go_TrimSpace_impl :: "go_string \<Rightarrow> go_string" where
  "go_TrimSpace_impl s =
     (case trim_space_start s 0 of
        Inl start \<Rightarrow> go_TrimFunc (drop start s) go_IsSpace
      | Inr start \<Rightarrow>
          (case trim_space_stop s start (length s) of
             Inl stop \<Rightarrow> go_TrimRightFunc (take (stop - start) (drop start s)) go_IsSpace
           | Inr stop \<Rightarrow> take (stop - start) (drop start s)))"

subsection \<open>The rune loops agree with the byte patterns\<close>


lemma space_encodings: "map go_EncodeRune space_runes = unicode_space_utf8"
  by (simp add: space_runes_def go_EncodeRune_def unicode_space_utf8_def MaxRune_def RuneError_def
      upt_rec char_of_def bit_simps)

lemma space_valid: "go_IsSpace r \<Longrightarrow> valid_rune r"
  by (auto simp: go_IsSpace_iff space_runes_iff valid_rune_def MaxRune_def)

lemma RuneError_not_space: "\<not> go_IsSpace RuneError"
  by (simp add: go_IsSpace_iff space_runes_iff RuneError_def)

lemma space_pattern: "p \<in> set unicode_space_utf8 \<longleftrightarrow> (\<exists>r. go_IsSpace r \<and> p = go_EncodeRune r)"
  by (auto simp: space_encodings [symmetric] go_IsSpace_iff)

lemma encode_not_Nil [simp]: "go_EncodeRune r \<noteq> []"
  by (simp add: go_EncodeRune_def Let_def)

lemma space_prefix_find:
  "find (\<lambda>p. p \<noteq> [] \<and> prefix p s) unicode_space_utf8 =
     (if s \<noteq> [] \<and> go_IsSpace (fst (go_DecodeRune s)) then Some (take (snd (go_DecodeRune s)) s)
      else None)"
proof (cases "find (\<lambda>p. p \<noteq> [] \<and> prefix p s) unicode_space_utf8")
  case None
  have "\<not> (s \<noteq> [] \<and> go_IsSpace (fst (go_DecodeRune s)))"
  proof
    assume a: "s \<noteq> [] \<and> go_IsSpace (fst (go_DecodeRune s))"
    obtain r w where d: "go_DecodeRune s = (r, w)" by fastforce
    with a have sp: "go_IsSpace r" by simp
    then have "(r, w) \<noteq> (RuneError, 1)" using RuneError_not_space by auto
    then have "take w s = go_EncodeRune r" using decode_valid_encoding [OF d] a by simp
    then have "go_EncodeRune r \<in> set unicode_space_utf8 \<and> prefix (go_EncodeRune r) s"
      using sp space_pattern by (metis take_is_prefix)
    then show False using None by (auto simp: find_None_iff)
  qed
  then show ?thesis using None by simp
next
  case (Some p)
  then have p: "p \<in> set unicode_space_utf8" "prefix p s" using find_SomeD by fastforce+
  then obtain r rest where r: "go_IsSpace r" "p = go_EncodeRune r" and s: "s = p @ rest"
    using space_pattern by (auto elim: prefixE)
  have "go_DecodeRune s = (r, length p)" using decode_encode [OF space_valid [OF r(1)]] r s by simp
  then show ?thesis using Some r s by simp
qed

lemma index_func_shift:
  "index_func_from f t s (i + j) =
     (let k = index_func_from f t (drop i s) j in if k = -1 then -1 else k + int i)"
proof (induction "length s - (i + j)" arbitrary: j rule: less_induct)
  case less
  show ?case
  proof (cases "i + j < length s")
    case True
    obtain r w where d: "go_DecodeRune (drop (i + j) s) = (r, w)" by fastforce
    have d': "go_DecodeRune (drop j (drop i s)) = (r, w)" using d by (simp add: add.commute)
    have w: "1 \<le> w" using decode_width [OF d] True by simp
    show ?thesis
    proof (cases "f r = t")
      case True
      with \<open>i + j < length s\<close> d d' show ?thesis
        by (simp add: index_func_from.simps [of f t s] index_func_from.simps [of f t "drop i s"])
    next
      case False
      have "index_func_from f t s (i + (j + w)) =
              (let k = index_func_from f t (drop i s) (j + w) in if k = -1 then -1 else k + int i)"
        using less w \<open>i + j < length s\<close> by simp
      with False \<open>i + j < length s\<close> d d' show ?thesis
        by (simp add: index_func_from.simps [of f t s] index_func_from.simps [of f t "drop i s"]
            add.assoc)
    qed
  next
    case False
    have a: "index_func_from f t s (i + j) = -1"
      using False by (simp add: index_func_from.simps [of f t s])
    have nj: "\<not> j < length (drop i s)" using False by simp
    have b: "index_func_from f t (drop i s) j = -1"
      by (subst index_func_from.simps) (simp only: if_not_P [OF nj])
    show ?thesis using a b by simp
  qed
qed

lemma index_func_ge: "-1 \<le> index_func_from f t s i"
proof (induction f t s i rule: index_func_from.induct)
  case (1 f truth s i)
  then show ?case by (subst index_func_from.simps) (auto split: prod.split)
qed

lemma index_func_range: "index_func_from f t s i = -1 \<or> 0 \<le> index_func_from f t s i"
  using index_func_ge [of f t s i] by linarith

lemma TrimLeftFunc_step:
  "go_TrimLeftFunc s f =
     (if s = [] then []
      else let (r, w) = go_DecodeRune s in if f r then go_TrimLeftFunc (drop w s) f else s)"
proof (cases "s = []")
  case True
  then show ?thesis
    by (simp add: go_TrimLeftFunc_def go_indexFunc_def index_func_from.simps)
next
  case False
  obtain r w where d: "go_DecodeRune s = (r, w)" by fastforce
  show ?thesis
  proof (cases "f r")
    case False
    then show ?thesis using d \<open>s \<noteq> []\<close>
      by (simp add: go_TrimLeftFunc_def go_indexFunc_def index_func_from.simps)
  next
    case True
    let ?k = "index_func_from f False (drop w s) 0"
    have "index_func_from f False s 0 = index_func_from f False s (w + 0)"
      using True d \<open>s \<noteq> []\<close> by (simp add: index_func_from.simps [of f False s 0])
    also have "\<dots> = (if ?k = -1 then -1 else ?k + int w)"
      by (simp only: index_func_shift Let_def)
    finally have i: "index_func_from f False s 0 = (if ?k = -1 then -1 else ?k + int w)" .
    have "?k = -1 \<or> 0 \<le> ?k" by (rule index_func_range)
    then show ?thesis using True d \<open>s \<noteq> []\<close> i
      by (auto simp: go_TrimLeftFunc_def go_indexFunc_def nat_add_distrib)
  qed
qed

lemma TrimLeftFunc_space: "go_TrimLeftFunc s go_IsSpace = go_TrimLeftSpace s"
proof (induction "length s" arbitrary: s rule: less_induct)
  case less
  show ?case
  proof (cases "s \<noteq> [] \<and> go_IsSpace (fst (go_DecodeRune s))")
    case True
    obtain r w where d: "go_DecodeRune s = (r, w)" by fastforce
    have w: "1 \<le> w" "w \<le> length s" using decode_width [OF d] True by simp_all
    have "go_TrimLeftSpace s = go_TrimLeftSpace (drop w s)"
      unfolding go_TrimLeftSpace_def
      using trim_left_seqs_step [OF space_prefix_find [THEN trans]] True d w
      by (simp add: min_def)
    moreover have "go_TrimLeftFunc s go_IsSpace = go_TrimLeftFunc (drop w s) go_IsSpace"
      using True d by (subst TrimLeftFunc_step) simp
    ultimately show ?thesis using less w True by simp
  next
    case False
    then have "go_TrimLeftSpace s = s"
      unfolding go_TrimLeftSpace_def by (simp add: trim_left_seqs_stop space_prefix_find)
    moreover have "go_TrimLeftFunc s go_IsSpace = s"
      using False by (subst TrimLeftFunc_step) (auto split: prod.split)
    ultimately show ?thesis by simp
  qed
qed

lemma space_suffix_find:
  "find (\<lambda>p. p \<noteq> [] \<and> suffix p s) unicode_space_utf8 =
     (if s \<noteq> [] \<and> go_IsSpace (fst (go_DecodeLastRune s))
      then Some (drop (length s - snd (go_DecodeLastRune s)) s) else None)"
proof (cases "find (\<lambda>p. p \<noteq> [] \<and> suffix p s) unicode_space_utf8")
  case None
  have "\<not> (s \<noteq> [] \<and> go_IsSpace (fst (go_DecodeLastRune s)))"
  proof
    assume a: "s \<noteq> [] \<and> go_IsSpace (fst (go_DecodeLastRune s))"
    obtain r w where d: "go_DecodeLastRune s = (r, w)" by fastforce
    with a have sp: "go_IsSpace r" by simp
    then have "(r, w) \<noteq> (RuneError, 1)" using RuneError_not_space by auto
    then have "drop (length s - w) s = go_EncodeRune r"
      using decode_last_valid_encoding [OF d] a by simp
    then have "go_EncodeRune r \<in> set unicode_space_utf8 \<and> suffix (go_EncodeRune r) s"
      using sp space_pattern by (metis suffix_drop)
    then show False using None by (auto simp: find_None_iff)
  qed
  then show ?thesis using None by simp
next
  case (Some p)
  then have p: "p \<in> set unicode_space_utf8" "suffix p s" using find_SomeD by fastforce+
  then obtain r t where r: "go_IsSpace r" "p = go_EncodeRune r" and s: "s = t @ p"
    using space_pattern by (auto elim: suffixE)
  have "go_DecodeLastRune s = (r, length p)" using decode_last_encode [OF space_valid [OF r(1)]] r s
    by simp
  then show ?thesis using Some r s by simp
qed

lemma TrimRightSpace_step:
  "go_TrimRightSpace s =
     (if s \<noteq> [] \<and> go_IsSpace (fst (go_DecodeLastRune s))
      then go_TrimRightSpace (take (length s - snd (go_DecodeLastRune s)) s) else s)"
proof (cases "s \<noteq> [] \<and> go_IsSpace (fst (go_DecodeLastRune s))")
  case True
  obtain r w where d: "go_DecodeLastRune s = (r, w)" by fastforce
  have w: "w \<le> length s" using decode_last_width [OF d] by simp
  have "find (\<lambda>p. p \<noteq> [] \<and> prefix p (rev s)) (map rev unicode_space_utf8) =
          map_option rev (find (\<lambda>p. p \<noteq> [] \<and> suffix p s) unicode_space_utf8)"
    by (simp add: find_map_option comp_def suffix_to_prefix)
  also have "\<dots> = Some (rev (drop (length s - w) s))"
    using True d by (simp add: space_suffix_find)
  finally have f: "find (\<lambda>p. p \<noteq> [] \<and> prefix p (rev s)) (map rev unicode_space_utf8) =
                     Some (rev (drop (length s - w) s))" .
  have "drop (length (rev (drop (length s - w) s))) (rev s) = rev (take (length s - w) s)"
    using w by (simp add: rev_take)
  then show ?thesis
    using trim_left_seqs_step [OF f] True d unfolding go_TrimRightSpace_def by simp
next
  case False
  have "find (\<lambda>p. p \<noteq> [] \<and> prefix p (rev s)) (map rev unicode_space_utf8) =
          map_option rev (find (\<lambda>p. p \<noteq> [] \<and> suffix p s) unicode_space_utf8)"
    by (simp add: find_map_option comp_def suffix_to_prefix)
  also have "\<dots> = None"
    using False by (simp add: space_suffix_find)
  finally have "go_TrimRightSpace s = s"
    unfolding go_TrimRightSpace_def by (simp add: trim_left_seqs_stop)
  then show ?thesis by (subst if_not_P [OF False])
qed

lemma last_index_space:
  "last_index_from go_IsSpace False p =
     (let t = go_TrimRightSpace p in if t = [] then -1 else int (length t - snd (go_DecodeLastRune t)))"
proof (induction "length p" arbitrary: p rule: less_induct)
  case less
  show ?case
  proof (cases "p = []")
    case True
    then show ?thesis
      by (simp add: last_index_from.simps TrimRightSpace_step [of "[]"])
  next
    case False
    obtain r w where d: "go_DecodeLastRune p = (r, w)" by fastforce
    have w: "1 \<le> w" "w \<le> length p" using decode_last_width [OF d] False by simp_all
    show ?thesis
    proof (cases "go_IsSpace r")
      case True
      have "go_TrimRightSpace p = go_TrimRightSpace (take (length p - w) p)"
        using True False d by (subst TrimRightSpace_step) simp
      moreover have "last_index_from go_IsSpace False p =
                       last_index_from go_IsSpace False (take (length p - w) p)"
        using True False d by (subst last_index_from.simps) simp
      ultimately show ?thesis using less w by simp
    next
      case nsp: False
      have "go_TrimRightSpace p = p"
        using nsp d by (subst TrimRightSpace_step) simp
      moreover have "last_index_from go_IsSpace False p = int (length p - w)"
        using nsp False d by (subst last_index_from.simps) simp
      ultimately show ?thesis using False d by simp
    qed
  qed
qed

lemma trimmed_tail_head:
  "drop (length (go_TrimRightSpace s)) s = [] \<or>
   \<not> is_cont (of_char (hd (drop (length (go_TrimRightSpace s)) s)))"
proof (induction "length s" arbitrary: s rule: less_induct)
  case less
  show ?case
  proof (cases "s \<noteq> [] \<and> go_IsSpace (fst (go_DecodeLastRune s))")
    case True
    obtain r w where d: "go_DecodeLastRune s = (r, w)" by fastforce
    have w: "1 \<le> w" "w \<le> length s" using decode_last_width [OF d] True by simp_all
    have sp: "go_IsSpace r" using True d by simp
    then have "(r, w) \<noteq> (RuneError, 1)" using RuneError_not_space by auto
    then have e: "drop (length s - w) s = go_EncodeRune r"
      using decode_last_valid_encoding [OF d] True by simp
    let ?p = "take (length s - w) s"
    let ?t = "go_TrimRightSpace ?p"
    have t: "go_TrimRightSpace s = ?t" using True d by (subst TrimRightSpace_step) simp
    have le: "length ?t \<le> length ?p" using prefix_TrimRightSpace [of ?p] by (rule prefix_length_le)
    have split: "drop (length ?t) s = drop (length ?t) ?p @ drop (length s - w) s"
    proof -
      have "drop (length ?t) s = drop (length ?t) (?p @ drop (length s - w) s)" by simp
      also have "\<dots> = drop (length ?t) ?p @ drop (length s - w) s"
        using le by (simp add: drop_append del: append_take_drop_id)
      finally show ?thesis .
    qed
    have ih: "drop (length ?t) ?p = [] \<or> \<not> is_cont (of_char (hd (drop (length ?t) ?p)))"
      using less(1) [of ?p] w True by simp
    show ?thesis
      using ih split e encode_hd_not_cont [OF space_valid [OF sp]] unfolding t
      by (auto simp: hd_append)
  next
    case False
    have "go_TrimRightSpace s = s" by (subst TrimRightSpace_step) (simp only: if_not_P [OF False])
    then show ?thesis by simp
  qed
qed

lemma trim_right_final:
  assumes ne: "t \<noteq> []" and d: "go_DecodeLastRune t = (r, w)"
    and u: "u = [] \<or> \<not> is_cont (of_char (hd u))"
  shows "(if RuneSelf \<le> (of_char ((t @ u) ! (length t - w)) :: nat)
          then length t - w + snd (go_DecodeRune (drop (length t - w) (t @ u)))
          else length t - w + 1) = length t"
proof -
  have w: "1 \<le> w" "w \<le> length t" using decode_last_width [OF d] ne by simp_all
  let ?i = "length t - w"
  have il: "?i < length t" using w by linarith
  have si: "(t @ u) ! ?i = t ! ?i" using il by (simp add: nth_append)
  have ds: "drop ?i (t @ u) = drop ?i t @ u" using w by simp
  show ?thesis
  proof (cases "(r, w) = (RuneError, 1)")
    case True
    then have w1: "w = 1" by simp
    have "drop ?i t = [t ! ?i]" using w w1 ne by (cases t rule: rev_cases) simp_all
    then have "drop ?i (t @ u) = t ! ?i # u" using ds by simp
    then show ?thesis using decode_width_one [of "t ! ?i" u] u si w w1 by simp
  next
    case ok: False
    have e: "drop ?i t = go_EncodeRune r" and v: "valid_rune r"
      using decode_last_valid_encoding [OF d ne ok] by simp_all
    have le: "length (go_EncodeRune r) = w" using e [symmetric] w by simp
    show ?thesis
    proof (cases "RuneSelf \<le> (of_char ((t @ u) ! ?i) :: nat)")
      case True
      have "go_DecodeRune (drop ?i (t @ u)) = (r, w)" using decode_encode [OF v, of u] ds e le by simp
      then show ?thesis using True w by simp
    next
      case nb: False
      have "hd (drop ?i t) = t ! ?i" using il by (rule hd_drop_conv_nth)
      then have "t ! ?i = hd (go_EncodeRune r)" using e by simp
      then have "w = 1" using encode_ascii_head [OF v] nb le si by simp
      then show ?thesis using nb w by simp
    qed
  qed
qed

lemma TrimRightFunc_space: "go_TrimRightFunc s go_IsSpace = go_TrimRightSpace s"
proof -
  let ?t = "go_TrimRightSpace s"
  have pre: "prefix ?t s" by (rule prefix_TrimRightSpace)
  then obtain u where s: "?t @ u = s" unfolding prefix_def by metis
  have u: "u = [] \<or> \<not> is_cont (of_char (hd u))"
    using trimmed_tail_head [of s] s by (metis append_eq_conv_conj)
  show ?thesis
  proof (cases "?t = []")
    case True
    then show ?thesis
      by (simp add: go_TrimRightFunc_def go_lastIndexFunc_def last_index_space)
  next
    case False
    obtain r w where d: "go_DecodeLastRune ?t = (r, w)" by fastforce
    let ?i = "length ?t - w"
    have i: "go_lastIndexFunc s go_IsSpace False = int ?i"
      using False d by (simp add: go_lastIndexFunc_def last_index_space)
    have final: "(if RuneSelf \<le> (of_char (s ! ?i) :: nat) then ?i + snd (go_DecodeRune (drop ?i s))
                 else ?i + 1) = length ?t"
      using trim_right_final [OF False d u] by (simp only: s)
    have "go_TrimRightFunc s go_IsSpace =
            take (if RuneSelf \<le> (of_char (s ! ?i) :: nat) then ?i + snd (go_DecodeRune (drop ?i s))
                  else ?i + 1) s"
      unfolding go_TrimRightFunc_def Let_def i by (simp add: nat_add_distrib)
    moreover have "take (length ?t) s = ?t" using s by (metis append_eq_conv_conj)
    ultimately show ?thesis using final by simp
  qed
qed

text \<open>
  \<open>strings.TrimFunc(s, unicode.IsSpace)\<close>, which decodes runes from the left with
  \<open>DecodeRune\<close> and from the right with \<open>DecodeLastRune\<close> and tests them with
  \<open>unicode.IsSpace\<close>, returns the same bytes as \<open>go_TrimSpace\<close>, which removes the
  UTF-8 encodings of the white-space runes as byte patterns; invalid UTF-8 included.
\<close>

theorem TrimFunc_space: "go_TrimFunc s go_IsSpace = go_TrimSpace s"
  by (simp add: go_TrimFunc_def go_TrimSpace_def TrimLeftFunc_space TrimRightFunc_space)

subsection \<open>The ASCII fast path agrees with the rune loops\<close>


lemma asciiSpace_rune: "asciiSpace c \<Longrightarrow> (of_char c :: nat) < RuneSelf \<and> go_IsSpace (of_char c)"
  by (auto simp: asciiSpace_def RuneSelf_def go_IsSpace_iff space_runes_iff)

lemma ascii_not_space:
  "\<not> asciiSpace c \<Longrightarrow> (of_char c :: nat) < RuneSelf \<Longrightarrow> \<not> go_IsSpace (of_char c)"
  by (auto simp: asciiSpace_def RuneSelf_def go_IsSpace_iff space_runes_iff)

lemma trim_space_start_Inl:
  "trim_space_start s k = Inl st \<Longrightarrow>
   k \<le> st \<and> st < length s \<and> RuneSelf \<le> (of_char (s ! st) :: nat) \<and>
   (\<forall>j. k \<le> j \<and> j < st \<longrightarrow> asciiSpace (s ! j))"
proof (induction s k rule: trim_space_start.induct)
  case (1 s start)
  show ?case
  proof (cases "start < length s \<and> \<not> RuneSelf \<le> (of_char (s ! start) :: nat) \<and> asciiSpace (s ! start)")
    case True
    then have "trim_space_start s (start + 1) = Inl st"
      using "1.prems" by (subst (asm) trim_space_start.simps) (simp add: Let_def)
    then have "start + 1 \<le> st \<and> st < length s \<and> RuneSelf \<le> (of_char (s ! st) :: nat) \<and>
               (\<forall>j. start + 1 \<le> j \<and> j < st \<longrightarrow> asciiSpace (s ! j))"
      using "1.IH" True by (simp add: Let_def)
    then show ?thesis using True all_from_Suc [of "\<lambda>j. asciiSpace (s ! j)" start st] by simp
  next
    case False
    then have "trim_space_start s start =
                 (if start < length s \<and> RuneSelf \<le> (of_char (s ! start) :: nat) then Inl start else Inr start)"
      by (subst trim_space_start.simps) (auto simp: Let_def)
    then show ?thesis using "1.prems" False by (auto split: if_splits)
  qed
qed

lemma trim_space_start_Inr:
  "trim_space_start s k = Inr st \<Longrightarrow> k \<le> length s \<Longrightarrow>
   k \<le> st \<and> st \<le> length s \<and> (\<forall>j. k \<le> j \<and> j < st \<longrightarrow> asciiSpace (s ! j)) \<and>
   (st < length s \<longrightarrow> \<not> asciiSpace (s ! st) \<and> (of_char (s ! st) :: nat) < RuneSelf)"
proof (induction s k rule: trim_space_start.induct)
  case (1 s start)
  show ?case
  proof (cases "start < length s \<and> \<not> RuneSelf \<le> (of_char (s ! start) :: nat) \<and> asciiSpace (s ! start)")
    case True
    then have "trim_space_start s (start + 1) = Inr st"
      using "1.prems" by (subst (asm) trim_space_start.simps) (simp add: Let_def)
    then have "start + 1 \<le> st \<and> st \<le> length s \<and> (\<forall>j. start + 1 \<le> j \<and> j < st \<longrightarrow> asciiSpace (s ! j)) \<and>
               (st < length s \<longrightarrow> \<not> asciiSpace (s ! st) \<and> (of_char (s ! st) :: nat) < RuneSelf)"
      using "1.IH" True by (simp add: Let_def)
    then show ?thesis using True all_from_Suc [of "\<lambda>j. asciiSpace (s ! j)" start st] by simp
  next
    case False
    then have "trim_space_start s start =
                 (if start < length s \<and> RuneSelf \<le> (of_char (s ! start) :: nat) then Inl start else Inr start)"
      by (subst trim_space_start.simps) (auto simp: Let_def)
    then show ?thesis using "1.prems" False by (auto split: if_splits)
  qed
qed

lemma trim_space_stop_Inl:
  "trim_space_stop s a b = Inl sp \<Longrightarrow>
   a < sp \<and> sp \<le> b \<and> RuneSelf \<le> (of_char (s ! (sp - 1)) :: nat) \<and>
   (\<forall>j. sp \<le> j \<and> j < b \<longrightarrow> asciiSpace (s ! j))"
proof (induction s a b rule: trim_space_stop.induct)
  case (1 s start stop)
  show ?case
  proof (cases "start < stop \<and> \<not> RuneSelf \<le> (of_char (s ! (stop - 1)) :: nat) \<and> asciiSpace (s ! (stop - 1))")
    case True
    then have "trim_space_stop s start (stop - 1) = Inl sp"
      using "1.prems" by (subst (asm) trim_space_stop.simps) (simp add: Let_def)
    then have "start < sp \<and> sp \<le> stop - 1 \<and> RuneSelf \<le> (of_char (s ! (sp - 1)) :: nat) \<and>
               (\<forall>j. sp \<le> j \<and> j < stop - 1 \<longrightarrow> asciiSpace (s ! j))"
      using "1.IH" True by (simp add: Let_def)
    then show ?thesis using True all_upto_pred [of "\<lambda>j. asciiSpace (s ! j)" stop sp] by auto
  next
    case False
    then have "trim_space_stop s start stop =
                 (if start < stop \<and> RuneSelf \<le> (of_char (s ! (stop - 1)) :: nat) then Inl stop else Inr stop)"
      by (subst trim_space_stop.simps) (auto simp: Let_def)
    then show ?thesis using "1.prems" False by (auto split: if_splits)
  qed
qed

lemma trim_space_stop_Inr:
  "trim_space_stop s a b = Inr sp \<Longrightarrow> a \<le> b \<Longrightarrow>
   a \<le> sp \<and> sp \<le> b \<and> (\<forall>j. sp \<le> j \<and> j < b \<longrightarrow> asciiSpace (s ! j)) \<and>
   (a < sp \<longrightarrow> \<not> asciiSpace (s ! (sp - 1)) \<and> (of_char (s ! (sp - 1)) :: nat) < RuneSelf)"
proof (induction s a b rule: trim_space_stop.induct)
  case (1 s start stop)
  show ?case
  proof (cases "start < stop \<and> \<not> RuneSelf \<le> (of_char (s ! (stop - 1)) :: nat) \<and> asciiSpace (s ! (stop - 1))")
    case True
    then have le: "start \<le> stop - 1" by auto
    from True have "trim_space_stop s start (stop - 1) = Inr sp"
      using "1.prems" by (subst (asm) trim_space_stop.simps) (simp add: Let_def)
    then have "start \<le> sp \<and> sp \<le> stop - 1 \<and> (\<forall>j. sp \<le> j \<and> j < stop - 1 \<longrightarrow> asciiSpace (s ! j)) \<and>
               (start < sp \<longrightarrow> \<not> asciiSpace (s ! (sp - 1)) \<and> (of_char (s ! (sp - 1)) :: nat) < RuneSelf)"
      using "1.IH" True le by (auto simp: Let_def)
    then show ?thesis using True all_upto_pred [of "\<lambda>j. asciiSpace (s ! j)" stop sp] by auto
  next
    case False
    then have "trim_space_stop s start stop =
                 (if start < stop \<and> RuneSelf \<le> (of_char (s ! (stop - 1)) :: nat) then Inl stop else Inr stop)"
      by (subst trim_space_stop.simps) (auto simp: Let_def)
    then show ?thesis using "1.prems" False by (auto split: if_splits)
  qed
qed

lemma TrimLeftFunc_ascii_skip:
  "st \<le> length s \<Longrightarrow> \<forall>j < st. asciiSpace (s ! j) \<Longrightarrow>
   go_TrimLeftFunc s go_IsSpace = go_TrimLeftFunc (drop st s) go_IsSpace"
proof (induction st arbitrary: s)
  case 0
  then show ?case by simp
next
  case (Suc n)
  then obtain c s' where s: "s = c # s'" by (cases s) auto
  have c: "asciiSpace c" using Suc.prems(2) s by auto
  have "\<forall>j < n. asciiSpace (s' ! j)"
  proof (intro allI impI)
    fix j
    assume "j < n"
    then have "asciiSpace (s ! Suc j)" using Suc.prems(2) by simp
    then show "asciiSpace (s' ! j)" using s by simp
  qed
  then have ih: "go_TrimLeftFunc s' go_IsSpace = go_TrimLeftFunc (drop n s') go_IsSpace"
    using Suc.IH [of s'] Suc.prems(1) s by simp
  have "go_TrimLeftFunc s go_IsSpace = go_TrimLeftFunc s' go_IsSpace"
    using asciiSpace_rune [OF c] s
    by (subst TrimLeftFunc_step) (simp add: decode_ascii del: go_DecodeRune.simps)
  then show ?case using ih s by simp
qed

lemma TrimLeftFunc_ascii_stop:
  "\<not> asciiSpace c \<Longrightarrow> (of_char c :: nat) < RuneSelf \<Longrightarrow> go_TrimLeftFunc (c # s) go_IsSpace = c # s"
  by (subst TrimLeftFunc_step) (simp add: decode_ascii ascii_not_space del: go_DecodeRune.simps)

lemma TrimRightSpace_ascii_skip:
  "\<forall>c \<in> set v. asciiSpace c \<Longrightarrow> go_TrimRightSpace (w @ v) = go_TrimRightSpace w"
proof (induction v rule: rev_induct)
  case Nil
  then show ?case by simp
next
  case (snoc c v)
  then have c: "asciiSpace c" by simp
  have "go_TrimRightSpace (w @ v @ [c]) = go_TrimRightSpace (w @ v)"
    using asciiSpace_rune [OF c] decode_last_ascii [of c "w @ v"]
    by (subst TrimRightSpace_step) simp
  then show ?case using snoc by simp
qed

lemma TrimRightSpace_ascii_stop:
  "\<not> asciiSpace c \<Longrightarrow> (of_char c :: nat) < RuneSelf \<Longrightarrow> go_TrimRightSpace (w @ [c]) = w @ [c]"
  using ascii_not_space decode_last_ascii [of c w] by (subst TrimRightSpace_step) simp


lemma ascii_tail:
  "\<forall>j. sp \<le> j \<and> j < length s \<longrightarrow> asciiSpace (s ! j) \<Longrightarrow> \<forall>c \<in> set (drop sp s). asciiSpace c"
  by (auto simp: in_set_conv_nth)

lemma TrimLeftFunc_fast:
  assumes "trim_space_start s 0 = Inr st"
  shows "go_TrimLeftFunc s go_IsSpace = drop st s"
proof -
  from trim_space_start_Inr [OF assms] have st: "st \<le> length s" "\<forall>j < st. asciiSpace (s ! j)"
    "st < length s \<longrightarrow> \<not> asciiSpace (s ! st) \<and> (of_char (s ! st) :: nat) < RuneSelf"
    by auto
  show ?thesis
  proof (cases "st < length s")
    case True
    then have "drop st s = s ! st # drop (Suc st) s" by (simp add: Cons_nth_drop_Suc)
    then show ?thesis
      using TrimLeftFunc_ascii_skip [OF st(1,2)] TrimLeftFunc_ascii_stop [of "s ! st" "drop (Suc st) s"]
        st(3) True by simp
  next
    case False
    then have "drop st s = []" using st by simp
    then show ?thesis using TrimLeftFunc_ascii_skip [OF st(1,2)] by (simp add: TrimLeftFunc_step [of "[]"])
  qed
qed

lemma TrimRightSpace_fast_Inl:
  assumes "trim_space_stop s st (length s) = Inl sp"
  shows "go_TrimRightSpace (drop st s) = go_TrimRightSpace (take (sp - st) (drop st s))"
proof -
  from trim_space_stop_Inl [OF assms] have sp: "st < sp" "sp \<le> length s"
    "\<forall>j. sp \<le> j \<and> j < length s \<longrightarrow> asciiSpace (s ! j)" by auto
  show ?thesis
    using TrimRightSpace_ascii_skip [OF ascii_tail [OF sp(3)], of "take (sp - st) (drop st s)"]
      drop_split_at [of st sp s] sp(1)
    by simp
qed

lemma TrimRightSpace_fast_Inr:
  assumes "trim_space_stop s st (length s) = Inr sp" and "st \<le> length s"
  shows "go_TrimRightSpace (drop st s) = take (sp - st) (drop st s)"
proof -
  let ?d = "drop st s"
  let ?x = "take (sp - st) ?d"
  from trim_space_stop_Inr [OF assms(1)] assms(2) have sp: "st \<le> sp" "sp \<le> length s"
    "\<forall>j. sp \<le> j \<and> j < length s \<longrightarrow> asciiSpace (s ! j)"
    "st < sp \<longrightarrow> \<not> asciiSpace (s ! (sp - 1)) \<and> (of_char (s ! (sp - 1)) :: nat) < RuneSelf"
    by auto
  have "go_TrimRightSpace ?d = go_TrimRightSpace ?x"
    using TrimRightSpace_ascii_skip [OF ascii_tail [OF sp(3)], of ?x] drop_split_at [OF sp(1), of s]
    by simp
  also have "\<dots> = ?x"
  proof (cases "st < sp")
    case True
    have m: "sp - st = Suc (sp - st - 1)" using True by simp
    have "?x = take (sp - st - 1) ?d @ [?d ! (sp - st - 1)]"
      using True sp(2) by (subst (1) m) (simp add: take_Suc_conv_app_nth)
    also have "?d ! (sp - st - 1) = s ! (sp - 1)" using True sp(2) by simp
    finally have "?x = take (sp - st - 1) ?d @ [s ! (sp - 1)]" .
    then show ?thesis using TrimRightSpace_ascii_stop [of "s ! (sp - 1)" "take (sp - st - 1) ?d"]
      sp(4) True by simp
  next
    case False
    then have "?x = []" using sp(1) by simp
    moreover have "go_TrimRightSpace [] = []" by (simp add: TrimRightSpace_step [of "[]"])
    ultimately show ?thesis by (simp only:)
  qed
  finally show ?thesis .
qed

text \<open>
  C25: \<open>strings.TrimSpace\<close> as Go writes it, with its ASCII fast path from both ends and
  its fall-back to \<open>TrimFunc\<close> and \<open>TrimRightFunc\<close> at the first non-ASCII byte,
  computes \<open>go_TrimSpace\<close>, the model the NameExtractor's lemmas rest on.
\<close>

theorem TrimSpace_impl_eq: "go_TrimSpace_impl s = go_TrimSpace s"
proof -
  have base: "go_TrimSpace s = go_TrimRightSpace (go_TrimLeftFunc s go_IsSpace)"
    by (simp add: go_TrimSpace_def TrimLeftFunc_space)
  show ?thesis
  proof (cases "trim_space_start s 0")
    case (Inl st)
    from trim_space_start_Inl [OF Inl] have st: "st \<le> length s" "\<forall>j < st. asciiSpace (s ! j)"
      by auto
    have "go_TrimSpace_impl s = go_TrimFunc (drop st s) go_IsSpace"
      using Inl by (simp add: go_TrimSpace_impl_def)
    also have "\<dots> = go_TrimRightSpace (go_TrimLeftFunc (drop st s) go_IsSpace)"
      by (simp add: go_TrimFunc_def TrimRightFunc_space)
    also have "\<dots> = go_TrimSpace s" using base TrimLeftFunc_ascii_skip [OF st] by simp
    finally show ?thesis .
  next
    case (Inr st)
    have ts: "go_TrimSpace s = go_TrimRightSpace (drop st s)"
      using base TrimLeftFunc_fast [OF Inr] by simp
    have st: "st \<le> length s" using trim_space_start_Inr [OF Inr] by auto
    show ?thesis
    proof (cases "trim_space_stop s st (length s)")
      case (Inl sp)
      have "go_TrimSpace_impl s = go_TrimRightFunc (take (sp - st) (drop st s)) go_IsSpace"
        using Inr Inl by (simp add: go_TrimSpace_impl_def)
      then show ?thesis using ts TrimRightFunc_space TrimRightSpace_fast_Inl [OF Inl] by simp
    next
      case stop: (Inr sp)
      have "go_TrimSpace_impl s = take (sp - st) (drop st s)"
        using Inr stop by (simp add: go_TrimSpace_impl_def)
      then show ?thesis using ts TrimRightSpace_fast_Inr [OF stop st] by simp
    qed
  qed
qed

theorem TrimFunc_space_witness:
  "go_TrimFunc ([CHR 0xE3, CHR 0x80, CHR 0x80] @ ''a b'' @ [CHR 0xC2, CHR 0x85]) go_IsSpace = ''a b''"
  using TrimFunc_space [of "[CHR 0xE3, CHR 0x80, CHR 0x80] @ ''a b'' @ [CHR 0xC2, CHR 0x85]"]
  by (simp add: go_eval)

theorem TrimSpace_impl_eq_witness:
  "go_TrimSpace_impl (''\<newline> x.org'' @ [CHR 0xC2, CHR 0xA0]) = ''x.org''"
  using TrimSpace_impl_eq [of "''\<newline> x.org'' @ [CHR 0xC2, CHR 0xA0]"]
  by (simp add: go_eval)

end
