(* ===== verification/Name_Extractor.thy ===== *)
theory Name_Extractor
  imports Go_Strings
begin

text \<open>
  The NameExtractor of \<open>src/recon/crtRecon.go\<close>: the record \<open>Certificate\<close>
  (lines 13--16), the helper \<open>addDomainsToSet\<close> (lines 92--97) and the loop of
  \<open>main\<close> that fills \<open>domainSet\<close> (lines 61--74). The Go map \<open>domainSet\<close> is a
  partial map into \<open>unit\<close>; the loop is a recursion over the decoded certificates, with
  the mode test \<open>*domainArg != ""\<close> made in every iteration as the code makes it.
  Against it stands the abstract extractor of the specification (section 4.1): a
  set of normalized tokens. The lemmas show that the loop refines it, that every entry
  satisfies the CandidateSet invariant, that normalization is idempotent, that
  duplicates collapse and that the result depends only on the set of records.
\<close>

subsection \<open>The code\<close>

record Certificate =
  CommonName :: go_string
  NameValue :: go_string

text \<open>Lines 92--97: normalize_token, filter, insert.\<close>

definition addDomainsToSet :: "go_set \<Rightarrow> go_string \<Rightarrow> go_set" where
  "addDomainsToSet domainSet domain =
     (let domain = go_ToLower (go_TrimSpace domain)
      in if domain \<noteq> [] \<and> \<not> go_ContainsAny domain '' &'' \<and> go_Contains domain ''.''
         then domainSet(domain \<mapsto> ()) else domainSet)"

text \<open>Lines 67--69: the inner loop over the lines of \<open>NameValue\<close>.\<close>

fun add_names :: "go_set \<Rightarrow> go_string list \<Rightarrow> go_set" where
  "add_names domainSet [] = domainSet"
| "add_names domainSet (name # names) = add_names (addDomainsToSet domainSet name) names"

text \<open>Lines 65--73: one iteration of the loop body for one certificate.\<close>

definition add_certificate :: "go_string \<Rightarrow> go_set \<Rightarrow> Certificate \<Rightarrow> go_set" where
  "add_certificate domainArg domainSet cert =
     (if domainArg \<noteq> []
      then add_names domainSet (go_Split (NameValue cert) CHR ''\<newline>'')
      else addDomainsToSet domainSet (CommonName cert))"

text \<open>Lines 64--74: the loop over the certificates.\<close>

fun collect_domains :: "go_string \<Rightarrow> go_set \<Rightarrow> Certificate list \<Rightarrow> go_set" where
  "collect_domains domainArg domainSet [] = domainSet"
| "collect_domains domainArg domainSet (cert # certs) =
     collect_domains domainArg (add_certificate domainArg domainSet cert) certs"

text \<open>Lines 62--74: a fresh map, then the loop.\<close>

definition build_domain_set :: "go_string \<Rightarrow> Certificate list \<Rightarrow> go_set" where
  "build_domain_set domainArg certificates = collect_domains domainArg Map.empty certificates"

subsection \<open>The specification\<close>

datatype query_mode = DomainQuery | OrgQuery

text \<open>The mode the code selects: a non-empty \<open>-d\<close> value means a domain query.\<close>

definition mode_of :: "go_string \<Rightarrow> query_mode" where
  "mode_of domainArg = (if domainArg \<noteq> [] then DomainQuery else OrgQuery)"

text \<open>Steps 1 and 2 of the normalization-and-filter step, and steps 3 to 5.\<close>

definition normalize_token :: "go_string \<Rightarrow> go_string" where
  "normalize_token t = go_ToLower (go_TrimSpace t)"

definition accepted :: "go_string \<Rightarrow> bool" where
  "accepted t \<longleftrightarrow> t \<noteq> [] \<and> CHR '' '' \<notin> set t \<and> CHR ''&'' \<notin> set t \<and> CHR ''.'' \<in> set t"

text \<open>The raw tokens a record contributes in each mode.\<close>

primrec raw_tokens :: "query_mode \<Rightarrow> Certificate \<Rightarrow> go_string list" where
  "raw_tokens DomainQuery r = go_Split (NameValue r) CHR ''\<newline>''"
| "raw_tokens OrgQuery r = [CommonName r]"

text \<open>\<open>extract(records, mode)\<close>: the CandidateSet.\<close>

definition extract_set :: "Certificate list \<Rightarrow> query_mode \<Rightarrow> go_string set" where
  "extract_set records mode =
     set (filter accepted (map normalize_token (concat (map (raw_tokens mode) records))))"

text \<open>The CandidateSet invariant of section 3, entry by entry and for a whole map.\<close>

definition candidate_ok :: "go_string \<Rightarrow> bool" where
  "candidate_ok d \<longleftrightarrow> accepted d \<and> go_TrimSpace d = d \<and> go_ToLower d = d"

definition set_ok :: "go_set \<Rightarrow> bool" where
  "set_ok m \<longleftrightarrow> (\<forall>d \<in> dom m. candidate_ok d)"

subsection \<open>The helper as a function of the normalized token\<close>

lemma go_Contains_single: "go_Contains s [c] \<longleftrightarrow> c \<in> set s"
  by (auto simp: go_Contains_def sublist_def in_set_conv_decomp)

lemma addDomainsToSet_guard:
  "(d \<noteq> [] \<and> \<not> go_ContainsAny d '' &'' \<and> go_Contains d ''.'') \<longleftrightarrow> accepted d"
  by (auto simp: accepted_def go_ContainsAny_def go_Contains_single)

lemma addDomainsToSet_eq:
  "addDomainsToSet m t = (if accepted (normalize_token t) then m(normalize_token t \<mapsto> ()) else m)"
  unfolding addDomainsToSet_def normalize_token_def Let_def addDomainsToSet_guard ..

lemma dom_addDomainsToSet:
  "dom (addDomainsToSet m t) = dom m \<union> set (filter accepted [normalize_token t])"
  by (simp add: addDomainsToSet_eq)

lemma dom_add_names: "dom (add_names m ts) = dom m \<union> set (filter accepted (map normalize_token ts))"
  by (induction ts arbitrary: m) (auto simp: dom_addDomainsToSet)

lemma dom_add_certificate:
  "dom (add_certificate d m c) =
   dom m \<union> set (filter accepted (map normalize_token (raw_tokens (mode_of d) c)))"
  by (auto simp: add_certificate_def mode_of_def dom_add_names dom_addDomainsToSet)

lemma extract_Nil [simp]: "extract_set [] mode = {}"
  by (simp add: extract_set_def)

lemma extract_Cons:
  "extract_set (c # cs) mode = set (filter accepted (map normalize_token (raw_tokens mode c))) \<union> extract_set cs mode"
  by (auto simp: extract_set_def)

lemma dom_collect_domains: "dom (collect_domains d m cs) = dom m \<union> extract_set cs (mode_of d)"
  by (induction cs arbitrary: m) (auto simp: dom_add_certificate extract_Cons)

text \<open>
  C1: the loop of \<open>main\<close> with \<open>addDomainsToSet\<close> computes exactly the CandidateSet
  of the specification: the keys of \<open>domainSet\<close> are the normalized raw tokens of
  the mode the \<open>-d\<close> flag selects that pass the filter.
\<close>

theorem build_domain_set_refines: "dom (build_domain_set d cs) = extract_set cs (mode_of d)"
  by (simp add: build_domain_set_def dom_collect_domains)

subsection \<open>Normalization\<close>

text \<open>
  C5: normalizing a token twice gives what normalizing it once gives:
  \<open>strings.ToLower(strings.TrimSpace(.))\<close> is idempotent.
\<close>

theorem normalize_idem: "normalize_token (normalize_token t) = normalize_token t"
  by (simp add: normalize_token_def go_ToLower_TrimSpace go_TrimSpace_idem go_ToLower_idem)

lemma normalize_candidate_ok: "accepted (normalize_token t) \<Longrightarrow> candidate_ok (normalize_token t)"
  by (simp add: candidate_ok_def normalize_token_def go_ToLower_TrimSpace go_TrimSpace_idem
      go_ToLower_idem)

lemma normalize_token_newline: "CHR ''\<newline>'' \<notin> set t \<Longrightarrow> CHR ''\<newline>'' \<notin> set (normalize_token t)"
  using set_go_TrimSpace set_go_ToLower [OF newline_not_letter] by (auto simp: normalize_token_def)

lemma extract_set_domain_newline:
  "k \<in> extract_set cs DomainQuery \<Longrightarrow> CHR ''\<newline>'' \<notin> set k"
  by (auto simp: extract_set_def dest: go_Split_pieces normalize_token_newline)

subsection \<open>The CandidateSet invariant\<close>

lemma set_ok_empty: "set_ok Map.empty"
  by (simp add: set_ok_def)

lemma addDomainsToSet_ok: "set_ok m \<Longrightarrow> set_ok (addDomainsToSet m t)"
  by (auto simp: set_ok_def addDomainsToSet_eq normalize_candidate_ok)

lemma add_names_ok: "set_ok m \<Longrightarrow> set_ok (add_names m ts)"
  by (induction ts arbitrary: m) (auto simp: addDomainsToSet_ok)

lemma add_certificate_ok: "set_ok m \<Longrightarrow> set_ok (add_certificate d m c)"
  by (simp add: add_certificate_def add_names_ok addDomainsToSet_ok)

lemma collect_domains_ok: "set_ok m \<Longrightarrow> set_ok (collect_domains d m cs)"
  by (induction cs arbitrary: m) (auto simp: add_certificate_ok)

text \<open>
  C2: every key of the finished \<open>domainSet\<close> is non-empty, trimmed, lower case,
  free of spaces and ampersands, and contains a period.
\<close>

theorem build_domain_set_ok: "set_ok (build_domain_set d cs)"
  by (simp add: build_domain_set_def collect_domains_ok set_ok_empty)

theorem build_domain_set_ok_witness:
  "set_ok (build_domain_set ''example.com''
     [\<lparr>CommonName = '''', NameValue = ''a.example.com\<newline> B.Example.COM ''\<rparr>])"
  by (rule build_domain_set_ok)

subsection \<open>Duplicates and order\<close>

text \<open>
  C4: two raw tokens that differ only in case or in surrounding white space leave one
  entry: the second insertion changes nothing.
\<close>

theorem addDomainsToSet_collapse:
  "normalize_token a = normalize_token b \<Longrightarrow>
   addDomainsToSet (addDomainsToSet m a) b = addDomainsToSet m a"
  by (simp add: addDomainsToSet_eq)

theorem addDomainsToSet_collapse_witness:
  "normalize_token '' WWW.Example.com'' = normalize_token ''www.example.COM\<newline>'' \<and>
   addDomainsToSet (addDomainsToSet Map.empty '' WWW.Example.com'') ''www.example.COM\<newline>'' =
   addDomainsToSet Map.empty '' WWW.Example.com''"
proof -
  have h: "normalize_token '' WWW.Example.com'' = normalize_token ''www.example.COM\<newline>''"
    by (simp add: normalize_token_def go_eval)
  show ?thesis
    using h addDomainsToSet_collapse [OF h, of Map.empty] by simp
qed

text \<open>The order in which two raw tokens reach \<open>addDomainsToSet\<close> does not matter.\<close>

theorem addDomainsToSet_commute:
  "addDomainsToSet (addDomainsToSet m a) b = addDomainsToSet (addDomainsToSet m b) a"
  by (cases "normalize_token a = normalize_token b") (auto simp: addDomainsToSet_eq fun_upd_twist)

text \<open>
  C6: the finished \<open>domainSet\<close> depends only on the set of decoded records: their
  order and repetitions in the upstream response do not matter.
\<close>

theorem build_domain_set_records:
  "set cs = set cs' \<Longrightarrow> build_domain_set d cs = build_domain_set d cs'"
  by (rule go_set_eqI) (simp add: build_domain_set_def dom_collect_domains extract_set_def)

theorem build_domain_set_records_witness:
  "set [\<lparr>CommonName = ''a.com'', NameValue = ''''\<rparr>, \<lparr>CommonName = ''b.com'', NameValue = ''''\<rparr>] =
   set [\<lparr>CommonName = ''b.com'', NameValue = ''''\<rparr>, \<lparr>CommonName = ''a.com'', NameValue = ''''\<rparr>,
        \<lparr>CommonName = ''a.com'', NameValue = ''''\<rparr>] \<and>
   build_domain_set [] [\<lparr>CommonName = ''a.com'', NameValue = ''''\<rparr>,
     \<lparr>CommonName = ''b.com'', NameValue = ''''\<rparr>] =
   build_domain_set [] [\<lparr>CommonName = ''b.com'', NameValue = ''''\<rparr>,
     \<lparr>CommonName = ''a.com'', NameValue = ''''\<rparr>, \<lparr>CommonName = ''a.com'', NameValue = ''''\<rparr>]"
proof -
  have h: "set [\<lparr>CommonName = ''a.com'', NameValue = ''''\<rparr>, \<lparr>CommonName = ''b.com'', NameValue = ''''\<rparr>] =
   set [\<lparr>CommonName = ''b.com'', NameValue = ''''\<rparr>, \<lparr>CommonName = ''a.com'', NameValue = ''''\<rparr>,
        \<lparr>CommonName = ''a.com'', NameValue = ''''\<rparr>]"
    by auto
  show ?thesis
    using h build_domain_set_records [OF h, of "[]"] by simp
qed

subsection \<open>The examples of the specification\<close>


end
