(* ===== verification/Output_Writer.thy ===== *)
theory Output_Writer
  imports Name_Extractor
begin

unbundle bit_operations_syntax

text \<open>
  The output stage of \<open>main\<close> in \<open>src/recon/crtRecon.go\<close>: the string \<open>output\<close>
  (line 63) built by ranging over \<open>domainSet\<close> (lines 76--78), and the file mode
  \<open>0644\<close> of \<open>ioutil.WriteFile\<close> (line 85). Go ranges over a map in an order the
  runtime picks, visiting every key exactly once; the model takes that order as a list
  and states what the runtime guarantees of it as \<open>range_order\<close>. The lemmas show that
  the lines of the output are the keys in that order, each once, when no key holds a
  newline, which a domain query guarantees and an organization query does not.
\<close>

subsection \<open>The code\<close>

text \<open>Lines 76--78: \<open>output += domain + "\n"\<close> for every key, in iteration order.\<close>

fun build_output :: "go_string list \<Rightarrow> go_string \<Rightarrow> go_string" where
  "build_output [] output = output"
| "build_output (domain # domains) output = build_output domains (output @ domain @ ''\<newline>'')"

text \<open>The Go runtime's promise about \<open>for k := range m\<close>: every key once, nothing else.\<close>

definition range_order :: "go_set \<Rightarrow> go_string list \<Rightarrow> bool" where
  "range_order m ks \<longleftrightarrow> distinct ks \<and> set ks = dom m"

text \<open>The permission bits \<open>0644\<close> passed at line 85, an \<open>os.FileMode\<close> (a \<open>uint32\<close>).\<close>

definition file_mode_0644 :: "32 word" where
  "file_mode_0644 = 0x1A4"

text \<open>The lines a reader of the output sees: the pieces between newlines, without the
  empty piece after the final newline.\<close>

definition output_lines :: "go_string \<Rightarrow> go_string list" where
  "output_lines out = butlast (go_Split out CHR ''\<newline>'')"

subsection \<open>Lemmas\<close>

lemma build_output_append: "build_output ds acc = acc @ concat (map (\<lambda>d. d @ ''\<newline>'') ds)"
  by (induction ds arbitrary: acc) auto

lemma go_Split_line:
  "CHR ''\<newline>'' \<notin> set d \<Longrightarrow>
   go_Split (d @ CHR ''\<newline>'' # rest) CHR ''\<newline>'' = d # go_Split rest CHR ''\<newline>''"
  by (simp add: go_Split_sep takeWhile_append dropWhile_append)

lemma go_Split_lines:
  "\<forall>d \<in> set ds. CHR ''\<newline>'' \<notin> set d \<Longrightarrow>
   go_Split (concat (map (\<lambda>d. d @ ''\<newline>'') ds)) CHR ''\<newline>'' = ds @ [[]]"
  by (induction ds) (simp_all add: go_Split_line go_Split_no_sep)

lemma output_lines_build:
  "\<forall>d \<in> set ds. CHR ''\<newline>'' \<notin> set d \<Longrightarrow> output_lines (build_output ds []) = ds"
  by (simp add: output_lines_def build_output_append go_Split_lines)

subsection \<open>What the output shows\<close>

lemma domain_output_lines:
  assumes "domainArg \<noteq> []" and "range_order (build_domain_set domainArg certs) ks"
  shows "output_lines (build_output ks []) = ks \<and> distinct ks \<and>
         set ks = extract_set certs DomainQuery"
proof -
  have keys: "set ks = extract_set certs DomainQuery"
    using assms by (simp add: range_order_def build_domain_set_def dom_collect_domains mode_of_def)
  then have "\<forall>d \<in> set ks. CHR ''\<newline>'' \<notin> set d"
    by (auto dest: extract_set_domain_newline)
  then show ?thesis
    using keys assms(2) by (simp add: output_lines_build range_order_def)
qed


text \<open>
  The mode \<open>0644\<close> of line 85, as the 32-bit \<open>os.FileMode\<close>, gives the owner
  read and write, the group and others read only, and sets no other bit.
\<close>

theorem file_mode_0644_bits:
  "file_mode_0644 AND 0x1C0 = 0x180 \<and> file_mode_0644 AND 0x38 = 0x20 \<and>
   file_mode_0644 AND 0x7 = 0x4 \<and> file_mode_0644 AND NOT 0x1FF = 0"
  by (simp add: file_mode_0644_def)

end
