(* ===== verification/Recon_Main.thy ===== *)
theory Recon_Main
  imports Output_Writer
begin

text \<open>
  The function \<open>main\<close> of \<open>src/recon/crtRecon.go\<close> (lines 18--90) as a function from
  the command line and the outside world to the effects it performs, in order. The
  flags (lines 20--23) are a record; \<open>Go_Flag\<close> computes it from the arguments. The outside
  world is a record of the collaborators the code calls: \<open>http.Get\<close> (an error or a
  response whose body \<open>ioutil.ReadAll\<close> reads or fails to read), \<open>json.Unmarshal\<close>
  into \<open>[]Certificate\<close>, the order in which the runtime ranges over a map, and
  \<open>ioutil.WriteFile\<close>. An effect is a write to standard output, the flag defaults
  printed to standard error, a request, a file write, the deferred close of the
  response body, or \<open>log.Fatal\<close>, which prints to standard error and exits with
  status 1 without running deferred calls. The server's reading of the query string
  is modelled from the URL form encoding, to state what the request asks for.
\<close>

subsection \<open>State and collaborators\<close>

record flags =
  domainArg :: go_string
  orgArg :: go_string
  outputFile :: go_string

text \<open>The five calls of \<open>log.Fatal\<close>, at lines 34, 45, 52, 58 and 87.\<close>

datatype fatal_site = BothQueries | GetFailed | ReadFailed | ParseFailed | WriteFailed

record http_response =
  StatusCode :: nat
  Body :: "unit + go_string"

record world =
  http_get :: "go_string \<Rightarrow> unit + http_response"
  unmarshal :: "go_string \<Rightarrow> unit + Certificate list"
  range_keys :: "go_set \<Rightarrow> go_string list"
  write_file :: "go_string \<Rightarrow> go_string \<Rightarrow> 32 word \<Rightarrow> bool"

datatype effect =
    Stdout go_string
  | PrintDefaults
  | HttpGet go_string
  | WriteFile go_string go_string "32 word"
  | CloseBody
  | LogFatal fatal_site

fun is_fatal :: "effect \<Rightarrow> bool" where
  "is_fatal (LogFatal _) = True"
| "is_fatal _ = False"

text \<open>The exit status of a run: \<open>log.Fatal\<close> exits with 1, returning from \<open>main\<close> with 0.\<close>

definition exit_status :: "effect list \<Rightarrow> nat" where
  "exit_status es = (if list_ex is_fatal es then 1 else 0)"

text \<open>\<open>log.Fatal\<close> ends the process: no effect follows it.\<close>

definition fatal_is_last :: "effect list \<Rightarrow> bool" where
  "fatal_is_last es \<longleftrightarrow> list_all (\<lambda>e. \<not> is_fatal e) (butlast es)"

subsection \<open>The code\<close>

text \<open>Lines 37--40: the organization name wins over the domain when it is set.\<close>

definition select_query :: "flags \<Rightarrow> go_string" where
  "select_query f = (let query = domainArg f in if orgArg f \<noteq> [] then orgArg f else query)"

text \<open>Line 43: the request URL.\<close>

definition crt_query_url :: "go_string \<Rightarrow> go_string" where
  "crt_query_url query =
     ''https://crt.sh/?'' @ ''q='' @ go_ReplaceAll_byte query CHR '' '' CHR ''+'' @ ''&output=json''"

text \<open>Lines 83--89: the optional file write, fatal when it fails.\<close>

definition write_results :: "flags \<Rightarrow> world \<Rightarrow> go_string \<Rightarrow> effect list" where
  "write_results f w output =
     (if outputFile f \<noteq> []
      then WriteFile (outputFile f) output file_mode_0644 #
           (if write_file w (outputFile f) output file_mode_0644 then [] else [LogFatal WriteFailed])
      else [])"

text \<open>Lines 55--89: decode the body, build the set and the output, print, write.\<close>

definition process_body :: "flags \<Rightarrow> world \<Rightarrow> go_string \<Rightarrow> effect list" where
  "process_body f w body =
     (case unmarshal w body of
        Inl _ \<Rightarrow> [LogFatal ParseFailed]
      | Inr certificates \<Rightarrow>
          (let domainSet = build_domain_set (domainArg f) certificates;
               output = build_output (range_keys w domainSet) []
           in Stdout output # write_results f w output))"

text \<open>
  Lines 18--90. The deferred \<open>resp.Body.Close()\<close> (line 47) runs when \<open>main\<close>
  returns, which it does unless \<open>log.Fatal\<close> ended the process first.
\<close>

definition main :: "flags \<Rightarrow> world \<Rightarrow> effect list" where
  "main f w =
     (if domainArg f = [] \<and> orgArg f = [] then [Stdout ''Usage:\<newline>'', PrintDefaults]
      else if domainArg f \<noteq> [] \<and> orgArg f \<noteq> [] then [LogFatal BothQueries]
      else
        (let url = crt_query_url (select_query f)
         in HttpGet url #
            (case http_get w url of
               Inl _ \<Rightarrow> [LogFatal GetFailed]
             | Inr resp \<Rightarrow>
                 (case Body resp of
                    Inl _ \<Rightarrow> [LogFatal ReadFailed]
                  | Inr body \<Rightarrow>
                      (let es = process_body f w body
                       in if list_ex is_fatal es then es else es @ [CloseBody])))))"

subsection \<open>How the server reads the request\<close>

text \<open>
  The query string of a URL (after the first \<open>?\<close>, before a \<open>#\<close>) and the first
  value of a key in it under the form encoding: pairs separated by \<open>&\<close>, the key
  before the first \<open>=\<close>, \<open>+\<close> read as a space. Percent escapes are not decoded;
  the lemmas that use this model exclude \<open>%\<close> from the query.
\<close>

definition url_raw_query :: "go_string \<Rightarrow> go_string" where
  "url_raw_query u = takeWhile (\<lambda>c. c \<noteq> CHR ''#'') (tl (dropWhile (\<lambda>c. c \<noteq> CHR ''?'') u))"

definition form_value :: "go_string \<Rightarrow> go_string \<Rightarrow> go_string option" where
  "form_value key rawq =
     map_option (\<lambda>kv. go_ReplaceAll_byte (drop (Suc (length key)) kv) CHR ''+'' CHR '' '')
       (find (\<lambda>kv. prefix (key @ ''='') kv) (go_Split rawq CHR ''&''))"

lemmas main_unfold = main_def Let_def process_body_def write_results_def

subsection \<open>The command line\<close>

text \<open>
  C11: with both \<open>-d\<close> and \<open>-org\<close> set, \<open>main\<close> stops with \<open>log.Fatal\<close> before
  any request: its only effect is the fatal message, and it exits with status 1.
\<close>

theorem main_both_flags:
  assumes "domainArg f \<noteq> []" and "orgArg f \<noteq> []"
  shows "main f w = [LogFatal BothQueries] \<and> exit_status (main f w) = 1"
  using assms by (simp add: main_def exit_status_def)

theorem main_both_flags_witness:
  "domainArg \<lparr>domainArg = ''foo'', orgArg = ''bar'', outputFile = ''''\<rparr> \<noteq> [] \<and>
   orgArg \<lparr>domainArg = ''foo'', orgArg = ''bar'', outputFile = ''''\<rparr> \<noteq> [] \<and>
   main \<lparr>domainArg = ''foo'', orgArg = ''bar'', outputFile = ''''\<rparr>
     \<lparr>http_get = (\<lambda>u. Inl ()), unmarshal = (\<lambda>b. Inl ()), range_keys = (\<lambda>m. []),
      write_file = (\<lambda>p d m. False)\<rparr> = [LogFatal BothQueries] \<and>
   exit_status (main \<lparr>domainArg = ''foo'', orgArg = ''bar'', outputFile = ''''\<rparr>
     \<lparr>http_get = (\<lambda>u. Inl ()), unmarshal = (\<lambda>b. Inl ()), range_keys = (\<lambda>m. []),
      write_file = (\<lambda>p d m. False)\<rparr>) = 1"
  using main_both_flags [of "\<lparr>domainArg = ''foo'', orgArg = ''bar'', outputFile = ''''\<rparr>"
      "\<lparr>http_get = (\<lambda>u. Inl ()), unmarshal = (\<lambda>b. Inl ()), range_keys = (\<lambda>m. []),
        write_file = (\<lambda>p d m. False)\<rparr>"]
  by (simp add: exit_status_def)

text \<open>
  C12: with neither flag set, \<open>main\<close> prints the usage line and the flag defaults,
  makes no request and exits with status 0.
\<close>

theorem main_no_flags:
  assumes "domainArg f = []" and "orgArg f = []"
  shows "main f w = [Stdout ''Usage:\<newline>'', PrintDefaults] \<and> exit_status (main f w) = 0"
  using assms by (simp add: main_def exit_status_def)

theorem main_no_flags_witness:
  "domainArg \<lparr>domainArg = '''', orgArg = '''', outputFile = ''out.txt''\<rparr> = [] \<and>
   orgArg \<lparr>domainArg = '''', orgArg = '''', outputFile = ''out.txt''\<rparr> = [] \<and>
   main \<lparr>domainArg = '''', orgArg = '''', outputFile = ''out.txt''\<rparr>
     \<lparr>http_get = (\<lambda>u. Inl ()), unmarshal = (\<lambda>b. Inl ()), range_keys = (\<lambda>m. []),
      write_file = (\<lambda>p d m. False)\<rparr> = [Stdout ''Usage:\<newline>'', PrintDefaults] \<and>
   exit_status (main \<lparr>domainArg = '''', orgArg = '''', outputFile = ''out.txt''\<rparr>
     \<lparr>http_get = (\<lambda>u. Inl ()), unmarshal = (\<lambda>b. Inl ()), range_keys = (\<lambda>m. []),
      write_file = (\<lambda>p d m. False)\<rparr>) = 0"
  using main_no_flags [of "\<lparr>domainArg = '''', orgArg = '''', outputFile = ''out.txt''\<rparr>"
      "\<lparr>http_get = (\<lambda>u. Inl ()), unmarshal = (\<lambda>b. Inl ()), range_keys = (\<lambda>m. []),
        write_file = (\<lambda>p d m. False)\<rparr>"]
  by (simp add: exit_status_def)

subsection \<open>Errors and the order of effects\<close>

lemma process_body_fatal_last: "fatal_is_last (process_body f w body)"
  by (simp add: process_body_def fatal_is_last_def write_results_def Let_def split: sum.splits)


text \<open>
  C14: \<open>main\<close> never reads the status code of the response: changing it, whatever
  the request, changes no effect. A response with status 500 is processed like one
  with status 200.
\<close>

theorem main_ignores_status:
  "main f (w\<lparr>http_get := (\<lambda>u. map_sum id (\<lambda>r. r\<lparr>StatusCode := s u\<rparr>) (http_get w u))\<rparr>) = main f w"
  by (auto simp: main_unfold split: sum.splits)


text \<open>
  C16: only a failed file write comes after output: when \<open>main\<close> fails for any other
  reason, nothing was printed to standard output.
\<close>

theorem main_no_output_unless_write:
  assumes "LogFatal s \<in> set (main f w)" and "s \<noteq> WriteFailed"
  shows "Stdout out \<notin> set (main f w)"
  using assms by (auto simp: main_unfold split: sum.splits if_splits)

theorem main_no_output_unless_write_witness:
  "LogFatal GetFailed \<in> set (main \<lparr>domainArg = ''example.com'', orgArg = '''', outputFile = ''''\<rparr>
     \<lparr>http_get = (\<lambda>u. Inl ()), unmarshal = (\<lambda>b. Inl ()), range_keys = (\<lambda>m. []),
      write_file = (\<lambda>p d m. False)\<rparr>) \<and> GetFailed \<noteq> WriteFailed \<and>
   Stdout [] \<notin> set (main \<lparr>domainArg = ''example.com'', orgArg = '''', outputFile = ''''\<rparr>
     \<lparr>http_get = (\<lambda>u. Inl ()), unmarshal = (\<lambda>b. Inl ()), range_keys = (\<lambda>m. []),
      write_file = (\<lambda>p d m. False)\<rparr>)"
proof -
  have h: "LogFatal GetFailed \<in> set (main \<lparr>domainArg = ''example.com'', orgArg = '''', outputFile = ''''\<rparr>
     \<lparr>http_get = (\<lambda>u. Inl ()), unmarshal = (\<lambda>b. Inl ()), range_keys = (\<lambda>m. []),
      write_file = (\<lambda>p d m. False)\<rparr>)"
    by (simp add: main_def Let_def)
  show ?thesis
    using h main_no_output_unless_write [OF h, of "[]"] by simp
qed

text \<open>
  C17: when the file write fails, the run is: the request, the whole output on standard
  output, the write, and \<open>log.Fatal\<close>. The names were printed although the exit
  status is 1; the specification says an aborted run produces no output.
\<close>

theorem main_write_failure:
  assumes "LogFatal WriteFailed \<in> set (main f w)"
  shows "\<exists>out. main f w = [HttpGet (crt_query_url (select_query f)), Stdout out,
                  WriteFile (outputFile f) out file_mode_0644, LogFatal WriteFailed] \<and>
               exit_status (main f w) = 1"
  using assms by (auto simp: main_unfold exit_status_def split: sum.splits if_splits)

theorem main_write_failure_witness:
  "LogFatal WriteFailed \<in> set (main \<lparr>domainArg = ''example.com'', orgArg = '''', outputFile = ''/ro/x''\<rparr>
     \<lparr>http_get = (\<lambda>u. Inr \<lparr>StatusCode = 200, Body = Inr ''[]''\<rparr>), unmarshal = (\<lambda>b. Inr []),
      range_keys = (\<lambda>m. [''a.example.com'']), write_file = (\<lambda>p d m. False)\<rparr>) \<and>
   main \<lparr>domainArg = ''example.com'', orgArg = '''', outputFile = ''/ro/x''\<rparr>
     \<lparr>http_get = (\<lambda>u. Inr \<lparr>StatusCode = 200, Body = Inr ''[]''\<rparr>), unmarshal = (\<lambda>b. Inr []),
      range_keys = (\<lambda>m. [''a.example.com'']), write_file = (\<lambda>p d m. False)\<rparr> =
   [HttpGet ''https://crt.sh/?q=example.com&output=json'', Stdout ''a.example.com\<newline>'',
    WriteFile ''/ro/x'' ''a.example.com\<newline>'' file_mode_0644, LogFatal WriteFailed]"
proof -
  let ?f = "\<lparr>domainArg = ''example.com'', orgArg = '''', outputFile = ''/ro/x''\<rparr>"
  let ?w = "\<lparr>http_get = (\<lambda>u. Inr \<lparr>StatusCode = 200, Body = Inr ''[]''\<rparr>), unmarshal = (\<lambda>b. Inr []),
      range_keys = (\<lambda>m. [''a.example.com'']), write_file = (\<lambda>p d m. False)\<rparr>"
  have run: "main ?f ?w =
   [HttpGet ''https://crt.sh/?q=example.com&output=json'', Stdout ''a.example.com\<newline>'',
    WriteFile ''/ro/x'' ''a.example.com\<newline>'' file_mode_0644, LogFatal WriteFailed]"
    by (simp add: main_unfold select_query_def crt_query_url_def go_ReplaceAll_byte_def)
  then have h: "LogFatal WriteFailed \<in> set (main ?f ?w)"
    by simp
  from main_write_failure [OF h] run show ?thesis
    by simp
qed

text \<open>
  C18: once the request has been made, the deferred \<open>resp.Body.Close()\<close> runs exactly
  in the runs that exit with status 0.
\<close>

theorem main_close_iff:
  assumes "HttpGet u \<in> set (main f w)"
  shows "CloseBody \<in> set (main f w) \<longleftrightarrow> exit_status (main f w) = 0"
  using assms by (auto simp: main_unfold exit_status_def list_ex_iff split: sum.splits if_splits)

theorem main_close_iff_witness:
  "HttpGet ''https://crt.sh/?q=x.org&output=json'' \<in>
     set (main \<lparr>domainArg = ''x.org'', orgArg = '''', outputFile = ''''\<rparr>
       \<lparr>http_get = (\<lambda>u. Inr \<lparr>StatusCode = 200, Body = Inl ()\<rparr>), unmarshal = (\<lambda>b. Inr []),
        range_keys = (\<lambda>m. []), write_file = (\<lambda>p d m. True)\<rparr>) \<and>
   (CloseBody \<in> set (main \<lparr>domainArg = ''x.org'', orgArg = '''', outputFile = ''''\<rparr>
       \<lparr>http_get = (\<lambda>u. Inr \<lparr>StatusCode = 200, Body = Inl ()\<rparr>), unmarshal = (\<lambda>b. Inr []),
        range_keys = (\<lambda>m. []), write_file = (\<lambda>p d m. True)\<rparr>) \<longleftrightarrow>
    exit_status (main \<lparr>domainArg = ''x.org'', orgArg = '''', outputFile = ''''\<rparr>
       \<lparr>http_get = (\<lambda>u. Inr \<lparr>StatusCode = 200, Body = Inl ()\<rparr>), unmarshal = (\<lambda>b. Inr []),
        range_keys = (\<lambda>m. []), write_file = (\<lambda>p d m. True)\<rparr>) = 0)"
proof -
  have h: "HttpGet ''https://crt.sh/?q=x.org&output=json'' \<in>
     set (main \<lparr>domainArg = ''x.org'', orgArg = '''', outputFile = ''''\<rparr>
       \<lparr>http_get = (\<lambda>u. Inr \<lparr>StatusCode = 200, Body = Inl ()\<rparr>), unmarshal = (\<lambda>b. Inr []),
        range_keys = (\<lambda>m. []), write_file = (\<lambda>p d m. True)\<rparr>)"
    by (simp add: main_def Let_def select_query_def crt_query_url_def go_ReplaceAll_byte_def)
  show ?thesis
    using h main_close_iff [OF h] by blast
qed

subsection \<open>The request\<close>

lemma set_go_ReplaceAll_byte: "set (go_ReplaceAll_byte s old new) \<subseteq> insert new (set s)"
  by (auto simp: go_ReplaceAll_byte_def)

lemma go_ReplaceAll_byte_inverse:
  "new \<notin> set s \<Longrightarrow> go_ReplaceAll_byte (go_ReplaceAll_byte s old new) new old = s"
  by (induction s) (auto simp: go_ReplaceAll_byte_def)

lemma url_raw_query_crt:
  assumes "CHR ''#'' \<notin> set q"
  shows "url_raw_query (crt_query_url q) =
         ''q='' @ go_ReplaceAll_byte q CHR '' '' CHR ''+'' @ ''&output=json''"
proof -
  have "CHR ''#'' \<notin> set (go_ReplaceAll_byte q CHR '' '' CHR ''+'')"
    using assms set_go_ReplaceAll_byte by fastforce
  then show ?thesis
    by (auto simp: url_raw_query_def crt_query_url_def takeWhile_append2)
qed




end
