(* ===== verification/Go_Json.thy ===== *)
theory Go_Json
  imports Recon_Main Utf8
begin

text \<open>
  Go's \<open>encoding/json\<close> as \<open>json.Unmarshal(body, &certificates)\<close> (line 56) runs it on
  a \<open>[]Certificate\<close>: \<open>checkValid\<close> first scans the whole input with the scanner
  (\<open>scanner.go\<close>) and rejects it with a \<open>SyntaxError\<close> unless it is one JSON value
  surrounded by white space; then the decoder (\<open>decode.go\<close>) stores the value, saving the
  first \<open>UnmarshalTypeError\<close> and going on. The scanner's state machine is modelled as a
  recursive descent with fuel over the same grammar, with its nesting limit; strings keep
  their raw bytes, which the decoder unquotes (\<open>unquoteBytes\<close>) when it stores them.
\<close>

subsection \<open>JSON values and the scanner\<close>

datatype json =
    JNull
  | JBool bool
  | JNumber go_string
  | JString go_string
  | JArray "json list"
  | JObject "(go_string \<times> json) list"

text \<open>The result of a scan: its value and the rest, a syntax error, or no fuel left.\<close>

datatype 'a scan = Scanned 'a | Syntax_error | Out_of_fuel

fun scan_map :: "('a \<Rightarrow> 'b) \<Rightarrow> 'a scan \<Rightarrow> 'b scan" where
  "scan_map f (Scanned x) = Scanned (f x)"
| "scan_map f Syntax_error = Syntax_error"
| "scan_map f Out_of_fuel = Out_of_fuel"

text \<open>\<open>maxNestingDepth\<close>: \<open>pushParseState\<close> fails beyond 10000 open arrays and objects.\<close>

definition maxNestingDepth :: nat where
  "maxNestingDepth = 10000"

text \<open>The scanner's \<open>isSpace\<close>: \<open>' '\<close>, \<open>'\t'\<close>, \<open>'\r'\<close>, \<open>'\n'\<close>.\<close>

definition json_isSpace :: "byte \<Rightarrow> bool" where
  "json_isSpace c \<longleftrightarrow> (of_char c :: nat) \<in> set [0x20, 0x09, 0x0D, 0x0A]"

definition skip_space :: "go_string \<Rightarrow> go_string" where
  "skip_space s = dropWhile json_isSpace s"

definition is_digit :: "byte \<Rightarrow> bool" where
  "is_digit c \<longleftrightarrow> 48 \<le> (of_char c :: nat) \<and> (of_char c :: nat) \<le> 57"

definition is_hex :: "byte \<Rightarrow> bool" where
  "is_hex c \<longleftrightarrow> is_digit c \<or> (97 \<le> (of_char c :: nat) \<and> (of_char c :: nat) \<le> 102) \<or>
                  (65 \<le> (of_char c :: nat) \<and> (of_char c :: nat) \<le> 70)"

text \<open>
  Numbers, states \<open>stateNeg\<close>, \<open>state0\<close>, \<open>state1\<close>, \<open>stateDot\<close>, \<open>stateDot0\<close>,
  \<open>stateE\<close>, \<open>stateESign\<close>, \<open>stateE0\<close>: \<open>-?(0|[1-9][0-9]*)(\.[0-9]+)?([eE][+-]?[0-9]+)?\<close>.
  The byte after the number goes back to the enclosing state.
\<close>

definition scan_digits1 :: "go_string \<Rightarrow> (go_string \<times> go_string) option" where
  "scan_digits1 s = (let ds = takeWhile is_digit s in if ds = [] then None else Some (ds, drop (length ds) s))"

text \<open>The integer part: \<open>0\<close>, or a digit \<open>1\<close>--\<open>9\<close> and more digits (\<open>state0\<close>, \<open>state1\<close>).\<close>

definition scan_int :: "go_string \<Rightarrow> (go_string \<times> go_string) option" where
  "scan_int s =
     (if s \<noteq> [] \<and> hd s = CHR ''0'' then Some (''0'', tl s)
      else if s \<noteq> [] \<and> is_digit (hd s) then scan_digits1 s else None)"

text \<open>An optional fraction: \<open>.\<close> and at least one digit (\<open>stateDot\<close>, \<open>stateDot0\<close>).\<close>

definition scan_frac :: "go_string \<Rightarrow> (go_string \<times> go_string) option" where
  "scan_frac s =
     (if s \<noteq> [] \<and> hd s = CHR ''.''
      then map_option (\<lambda>(ds, r). (CHR ''.'' # ds, r)) (scan_digits1 (tl s))
      else Some ([], s))"

text \<open>
  An optional exponent: \<open>e\<close> or \<open>E\<close>, an optional sign, at least one digit (\<open>stateE\<close>,
  \<open>stateESign\<close>, \<open>stateE0\<close>).
\<close>

definition scan_exp :: "go_string \<Rightarrow> (go_string \<times> go_string) option" where
  "scan_exp s =
     (if s \<noteq> [] \<and> (hd s = CHR ''e'' \<or> hd s = CHR ''E'') then
        (let s4 = tl s in
         if s4 \<noteq> [] \<and> (hd s4 = CHR ''+'' \<or> hd s4 = CHR ''-'')
         then map_option (\<lambda>(ds, r). ([hd s, hd s4] @ ds, r)) (scan_digits1 (tl s4))
         else map_option (\<lambda>(ds, r). (hd s # ds, r)) (scan_digits1 s4))
      else Some ([], s))"

text \<open>A number: an optional minus sign (\<open>stateNeg\<close>), then the three parts.\<close>

definition scan_number :: "go_string \<Rightarrow> (go_string \<times> go_string) option" where
  "scan_number s =
     (let (sgn, s1) = (if s \<noteq> [] \<and> hd s = CHR ''-'' then (''-'', tl s) else ([], s)) in
      case scan_int s1 of
        None \<Rightarrow> None
      | Some (ip, s2) \<Rightarrow>
          (case scan_frac s2 of
             None \<Rightarrow> None
           | Some (fp, s3) \<Rightarrow>
               (case scan_exp s3 of
                  None \<Rightarrow> None
                | Some (xp, s4) \<Rightarrow> Some (sgn @ ip @ fp @ xp, s4))))"

text \<open>
  Strings after the opening quote, states \<open>stateInString\<close>, \<open>stateInStringEsc\<close>,
  \<open>stateInStringEscU*\<close>: a control byte is an error, an escape is one of
  \<open>\" \\ \/ \b \f \n \r \t\<close> or \<open>\u\<close> with four hex digits; any other byte, invalid
  UTF-8 included, is kept. The result is the raw content and the rest after the quote.
\<close>

function scan_string :: "go_string \<Rightarrow> (go_string \<times> go_string) option" where
  "scan_string [] = None"
| "scan_string (c # s) =
     (if c = CHR ''\"'' then Some ([], s)
      else if c = CHR 0x5C then
        (case s of
           [] \<Rightarrow> None
         | e # s' \<Rightarrow>
             if e \<in> set [CHR 0x22, CHR 0x5C, CHR ''/'', CHR ''b'', CHR ''f'', CHR ''n'', CHR ''r'', CHR ''t''] then map_option (\<lambda>(b, r). (c # e # b, r)) (scan_string s')
             else if e = CHR ''u'' then
               (if 4 \<le> length s' \<and> list_all is_hex (take 4 s')
                then map_option (\<lambda>(b, r). (c # e # take 4 s' @ b, r)) (scan_string (drop 4 s'))
                else None)
             else None)
      else if (of_char c :: nat) < 0x20 then None
      else map_option (\<lambda>(b, r). (c # b, r)) (scan_string s))"
  by pat_completeness auto
termination
  by (relation "measure length") auto

text \<open>
  The content of a string literal the scanner accepts, as a predicate: no quote or
  control byte, and every backslash starts one of the escapes \<open>scan_string\<close> reads.
\<close>

function raw_ok :: "go_string \<Rightarrow> bool" where
  "raw_ok [] = True"
| "raw_ok (c # s) =
     (if c = CHR 0x22 then False
      else if c = CHR 0x5C then
        (case s of
           [] \<Rightarrow> False
         | e # s' \<Rightarrow>
             if e \<in> set [CHR 0x22, CHR 0x5C, CHR ''/'', CHR ''b'', CHR ''f'', CHR ''n'', CHR ''r'', CHR ''t''] then raw_ok s'
             else if e = CHR ''u'' then 4 \<le> length s' \<and> list_all is_hex (take 4 s') \<and> raw_ok (drop 4 s')
             else False)
      else if (of_char c :: nat) < 0x20 then False
      else raw_ok s)"
  by pat_completeness auto
termination
  by (relation "measure length") auto

text \<open>Every string and key of a value is the content of a string literal the scanner accepts.\<close>

fun json_ok :: "json \<Rightarrow> bool" where
  "json_ok (JString b) = raw_ok b"
| "json_ok (JArray vs) = (\<forall>v\<in>set vs. json_ok v)"
| "json_ok (JObject ms) = (\<forall>m\<in>set ms. raw_ok (fst m) \<and> json_ok (snd m))"
| "json_ok _ = True"

text \<open>
  Values (\<open>stateBeginValue\<close>), arrays and objects. The input of \<open>json_value\<close> starts
  at the value's first byte (the caller skipped white space); \<open>d\<close> is the number of
  arrays and objects open around it. Every call spends one unit of fuel.
\<close>

fun json_value :: "nat \<Rightarrow> nat \<Rightarrow> go_string \<Rightarrow> (json \<times> go_string) scan"
and json_elements :: "nat \<Rightarrow> nat \<Rightarrow> go_string \<Rightarrow> (json list \<times> go_string) scan"
and json_members :: "nat \<Rightarrow> nat \<Rightarrow> go_string \<Rightarrow> ((go_string \<times> json) list \<times> go_string) scan" where
  "json_value 0 d s = Out_of_fuel"
| "json_value (Suc n) d s =
     (case s of
        [] \<Rightarrow> Syntax_error
      | c # r \<Rightarrow>
          if c = CHR ''{'' then
            (if maxNestingDepth < d + 1 then Syntax_error
             else let r' = skip_space r in
               if r' \<noteq> [] \<and> hd r' = CHR ''}'' then Scanned (JObject [], tl r')
               else scan_map (\<lambda>(ms, r''). (JObject ms, r'')) (json_members n (d + 1) r'))
          else if c = CHR ''['' then
            (if maxNestingDepth < d + 1 then Syntax_error
             else let r' = skip_space r in
               if r' \<noteq> [] \<and> hd r' = CHR '']'' then Scanned (JArray [], tl r')
               else scan_map (\<lambda>(vs, r''). (JArray vs, r'')) (json_elements n (d + 1) r'))
          else if c = CHR ''\"'' then
            (case scan_string r of None \<Rightarrow> Syntax_error | Some (b, r') \<Rightarrow> Scanned (JString b, r'))
          else if c = CHR ''-'' \<or> is_digit c then
            (case scan_number s of None \<Rightarrow> Syntax_error | Some (m, r') \<Rightarrow> Scanned (JNumber m, r'))
          else if prefix ''true'' s then Scanned (JBool True, drop 4 s)
          else if prefix ''false'' s then Scanned (JBool False, drop 5 s)
          else if prefix ''null'' s then Scanned (JNull, drop 4 s)
          else Syntax_error)"
| "json_elements 0 d s = Out_of_fuel"
| "json_elements (Suc n) d s =
     (case json_value n d s of
        Scanned (v, r) \<Rightarrow>
          (let r' = skip_space r in
           if r' \<noteq> [] \<and> hd r' = CHR '','' then
             scan_map (\<lambda>(vs, r''). (v # vs, r'')) (json_elements n d (skip_space (tl r')))
           else if r' \<noteq> [] \<and> hd r' = CHR '']'' then Scanned ([v], tl r')
           else Syntax_error)
      | Syntax_error \<Rightarrow> Syntax_error
      | Out_of_fuel \<Rightarrow> Out_of_fuel)"
| "json_members 0 d s = Out_of_fuel"
| "json_members (Suc n) d s =
     (if s \<noteq> [] \<and> hd s = CHR ''\"'' then
        (case scan_string (tl s) of
           None \<Rightarrow> Syntax_error
         | Some (k, r) \<Rightarrow>
             (let r1 = skip_space r in
              if r1 \<noteq> [] \<and> hd r1 = CHR '':'' then
                (case json_value n d (skip_space (tl r1)) of
                   Scanned (v, r2) \<Rightarrow>
                     (let r3 = skip_space r2 in
                      if r3 \<noteq> [] \<and> hd r3 = CHR '','' then
                        scan_map (\<lambda>(ms, r4). ((k, v) # ms, r4)) (json_members n d (skip_space (tl r3)))
                      else if r3 \<noteq> [] \<and> hd r3 = CHR ''}'' then Scanned ([(k, v)], tl r3)
                      else Syntax_error)
                 | Syntax_error \<Rightarrow> Syntax_error
                 | Out_of_fuel \<Rightarrow> Out_of_fuel)
              else Syntax_error))
      else Syntax_error)"

text \<open>The fuel given to the scan of a whole input: twice its length, plus one.\<close>

definition json_fuel :: "go_string \<Rightarrow> nat" where
  "json_fuel data = 2 * length data + 1"

text \<open>
  \<open>checkValid(data, scan)\<close>: one value, then only white space (\<open>stateEndTop\<close>);
  anything else, running out of fuel included, is a syntax error.
\<close>

definition json_checkValid :: "go_string \<Rightarrow> json option" where
  "json_checkValid data =
     (case json_value (json_fuel data) 0 (skip_space data) of
        Scanned (v, r) \<Rightarrow> if skip_space r = [] then Some v else None
      | Syntax_error \<Rightarrow> None
      | Out_of_fuel \<Rightarrow> None)"

subsection \<open>Unquoting strings\<close>

text \<open>The value of a hex digit, as \<open>getu4\<close> reads it.\<close>

definition hex_val :: "byte \<Rightarrow> nat" where
  "hex_val c =
     (let x = (of_char c :: nat) in
      if 48 \<le> x \<and> x \<le> 57 then x - 48 else if 97 \<le> x \<and> x \<le> 102 then x - 87 else x - 55)"

text \<open>
  \<open>getu4(s)\<close>: the value of \<open>\uXXXX\<close> at the start of \<open>s\<close>, or \<open>-1\<close> (here \<open>None\<close>)
  when \<open>s\<close> does not start with one.
\<close>

definition getu4 :: "go_string \<Rightarrow> rune option" where
  "getu4 s =
     (if length s < 6 \<or> s ! 0 \<noteq> CHR 0x5C \<or> s ! 1 \<noteq> CHR ''u'' \<or> \<not> list_all is_hex (take 4 (drop 2 s))
      then None
      else Some (foldl (\<lambda>r c. r * 16 + hex_val c) 0 (take 4 (drop 2 s))))"

text \<open>\<open>utf16.IsSurrogate\<close> and \<open>utf16.DecodeRune\<close> (\<open>unicode/utf16\<close>); \<open>None\<close> is \<open>-1\<close>.\<close>

definition utf16_IsSurrogate :: "rune \<Rightarrow> bool" where
  "utf16_IsSurrogate r \<longleftrightarrow> 0xD800 \<le> r \<and> r < 0xE000"

definition utf16_DecodeRune :: "rune \<Rightarrow> rune option \<Rightarrow> rune" where
  "utf16_DecodeRune r1 r2 =
     (case r2 of
        Some r2 \<Rightarrow>
          if 0xD800 \<le> r1 \<and> r1 < 0xDC00 \<and> 0xDC00 \<le> r2 \<and> r2 < 0xE000
          then (r1 - 0xD800) * 0x400 + (r2 - 0xDC00) + 0x10000 else RuneError
      | None \<Rightarrow> RuneError)"

text \<open>
  The loop of \<open>unquoteBytes\<close> after its fast path: escapes are decoded (a surrogate
  pair to one rune, a lone surrogate to \<open>U+FFFD\<close>), a quote or control byte fails, an
  ASCII byte is copied, and anything else is decoded with \<open>utf8.DecodeRune\<close> and
  re-encoded, which turns every invalid byte into \<open>U+FFFD\<close>.
\<close>

function unquote_loop :: "go_string \<Rightarrow> go_string option" where
  "unquote_loop [] = Some []"
| "unquote_loop (c # s) =
     (if c = CHR 0x5C then
        (case s of
           [] \<Rightarrow> None
         | e # s' \<Rightarrow>
             if e \<in> set [CHR 0x22, CHR 0x5C, CHR ''/'', CHR 0x27] then map_option (Cons e) (unquote_loop s')
             else if e = CHR ''b'' then map_option (Cons (CHR 0x08)) (unquote_loop s')
             else if e = CHR ''f'' then map_option (Cons (CHR 0x0C)) (unquote_loop s')
             else if e = CHR ''n'' then map_option (Cons (CHR 0x0A)) (unquote_loop s')
             else if e = CHR ''r'' then map_option (Cons (CHR 0x0D)) (unquote_loop s')
             else if e = CHR ''t'' then map_option (Cons (CHR 0x09)) (unquote_loop s')
             else if e = CHR ''u'' then
               (case getu4 (c # s) of
                  None \<Rightarrow> None
                | Some rr \<Rightarrow>
                    if utf16_IsSurrogate rr then
                      (let dec = utf16_DecodeRune rr (getu4 (drop 6 (c # s))) in
                       if dec \<noteq> RuneError
                       then map_option (append (go_EncodeRune dec)) (unquote_loop (drop 12 (c # s)))
                       else map_option (append (go_EncodeRune RuneError)) (unquote_loop (drop 6 (c # s))))
                    else map_option (append (go_EncodeRune rr)) (unquote_loop (drop 6 (c # s))))
             else None)
      else if c = CHR 0x22 \<or> (of_char c :: nat) < 0x20 then None
      else if (of_char c :: nat) < RuneSelf then map_option (Cons c) (unquote_loop s)
      else
        (let (rr, size) = go_DecodeRune (c # s) in
         map_option (append (go_EncodeRune rr)) (unquote_loop (drop size (c # s)))))"
  by pat_completeness auto
termination
  by (relation "measure length") (auto simp del: go_DecodeRune.simps dest!: decode_width_Cons)

text \<open>
  The fast path of \<open>unquoteBytes\<close>: the length of the prefix of plain bytes, ASCII other
  than a quote, a backslash or a control byte, and valid UTF-8 sequences.
\<close>

function unquote_plain_prefix :: "go_string \<Rightarrow> nat" where
  "unquote_plain_prefix [] = 0"
| "unquote_plain_prefix (c # s) =
     (if c = CHR 0x5C \<or> c = CHR 0x22 \<or> (of_char c :: nat) < 0x20 then 0
      else if (of_char c :: nat) < RuneSelf then Suc (unquote_plain_prefix s)
      else
        (let (rr, size) = go_DecodeRune (c # s) in
         if rr = RuneError \<and> size = 1 then 0 else size + unquote_plain_prefix (drop size (c # s))))"
  by pat_completeness auto
termination
  by (relation "measure length") (auto simp del: go_DecodeRune.simps dest!: decode_width_Cons)

text \<open>
  \<open>unquoteBytes\<close> on the content of a string literal: the input itself when all of it is
  plain, else the plain prefix followed by the loop on the rest. \<open>None\<close> is its
  \<open>ok == false\<close>.
\<close>

definition go_unquote :: "go_string \<Rightarrow> go_string option" where
  "go_unquote s =
     (let r = unquote_plain_prefix s in
      if r = length s then Some s else map_option (append (take r s)) (unquote_loop (drop r s)))"

subsection \<open>Decoding into \<open>[]Certificate\<close>\<close>

text \<open>
  The errors \<open>Unmarshal\<close> returns: a \<open>SyntaxError\<close> from \<open>checkValid\<close>, or the first
  \<open>UnmarshalTypeError\<close> the decoder saved, naming the JSON kind it met.
\<close>

datatype json_error = SyntaxError | UnmarshalTypeError go_string

definition json_kind :: "json \<Rightarrow> go_string" where
  "json_kind v =
     (case v of JNull \<Rightarrow> ''null'' | JBool _ \<Rightarrow> ''bool'' | JNumber _ \<Rightarrow> ''number''
      | JString _ \<Rightarrow> ''string'' | JArray _ \<Rightarrow> ''array'' | JObject _ \<Rightarrow> ''object'')"

text \<open>\<open>d.saveError(err)\<close>: keep the first error.\<close>

definition save_error :: "json_error option \<Rightarrow> json_error option \<Rightarrow> json_error option" where
  "save_error saved e = (case saved of None \<Rightarrow> e | Some _ \<Rightarrow> saved)"

text \<open>
  A value stored into a \<open>string\<close> field (\<open>literalStore\<close>, \<open>d.array\<close>, \<open>d.object\<close>):
  a string is unquoted and stored, \<open>null\<close> leaves the field as it is, any other kind is
  an \<open>UnmarshalTypeError\<close> that leaves it too.
\<close>

definition store_string :: "go_string \<Rightarrow> json \<Rightarrow> json_error option \<times> go_string" where
  "store_string cur v =
     (case v of
        JNull \<Rightarrow> (None, cur)
      | JString raw \<Rightarrow> (case go_unquote raw of Some x \<Rightarrow> (None, x) | None \<Rightarrow> (Some SyntaxError, cur))
      | _ \<Rightarrow> (Some (UnmarshalTypeError (json_kind v)), cur))"

text \<open>
  \<open>foldName\<close> on the bytes of a key: ASCII letters to upper case. Other runes fold to
  the least rune of their \<open>unicode.SimpleFold\<close> orbit; the only orbits with non-ASCII
  members that reach ASCII letters are those of \<open>k\<close> and \<open>s\<close>, which the two field
  names do not contain, so the non-ASCII bytes of a key never match them and are kept.
\<close>

definition fold_byte :: "byte \<Rightarrow> byte" where
  "fold_byte c =
     (if 97 \<le> (of_char c :: nat) \<and> (of_char c :: nat) \<le> 122 then char_of (of_char c - 32 :: nat) else c)"

definition foldName :: "go_string \<Rightarrow> go_string" where
  "foldName s = map fold_byte s"

text \<open>
  The field a key selects (\<open>d.object\<close>): \<open>fields.byExactName\<close>, then
  \<open>fields.byFoldedName\<close>; the tags give the names \<open>common_name\<close> and \<open>name_value\<close>.
\<close>

datatype cert_field = CommonNameField | NameValueField

definition cert_field_of :: "go_string \<Rightarrow> cert_field option" where
  "cert_field_of key =
     (if key = ''common_name'' then Some CommonNameField
      else if key = ''name_value'' then Some NameValueField
      else if foldName key = foldName ''common_name'' then Some CommonNameField
      else if foldName key = foldName ''name_value'' then Some NameValueField
      else None)"

text \<open>
  The members of an object decoded into a \<open>Certificate\<close>, in order: a key that selects
  no field is skipped (\<open>DisallowUnknownFields\<close> is off), a later key overwrites an
  earlier one.
\<close>

fun decode_members :: "json_error option \<Rightarrow> Certificate \<Rightarrow> (go_string \<times> json) list \<Rightarrow>
                       json_error option \<times> Certificate" where
  "decode_members saved c [] = (saved, c)"
| "decode_members saved c ((k, v) # ms) =
     (case go_unquote k of
        None \<Rightarrow> decode_members (save_error saved (Some SyntaxError)) c ms
      | Some key \<Rightarrow>
          (case cert_field_of key of
             Some CommonNameField \<Rightarrow>
               (let (e, x) = store_string (CommonName c) v in
                decode_members (save_error saved e) (c\<lparr>CommonName := x\<rparr>) ms)
           | Some NameValueField \<Rightarrow>
               (let (e, x) = store_string (NameValue c) v in
                decode_members (save_error saved e) (c\<lparr>NameValue := x\<rparr>) ms)
           | None \<Rightarrow> decode_members saved c ms))"

text \<open>The zero \<open>Certificate\<close>, which a new slice element starts from.\<close>

definition zero_certificate :: Certificate where
  "zero_certificate = \<lparr>CommonName = [], NameValue = []\<rparr>"

text \<open>
  One element of the array: an object fills a zero \<open>Certificate\<close>, \<open>null\<close> leaves it
  zero, any other kind is an \<open>UnmarshalTypeError\<close>.
\<close>

definition decode_certificate :: "json_error option \<Rightarrow> json \<Rightarrow> json_error option \<times> Certificate" where
  "decode_certificate saved v =
     (case v of
        JObject ms \<Rightarrow> decode_members saved zero_certificate ms
      | JNull \<Rightarrow> (saved, zero_certificate)
      | _ \<Rightarrow> (save_error saved (Some (UnmarshalTypeError (json_kind v))), zero_certificate))"

fun decode_elements :: "json_error option \<Rightarrow> json list \<Rightarrow> json_error option \<times> Certificate list" where
  "decode_elements saved [] = (saved, [])"
| "decode_elements saved (v # vs) =
     (let (e, c) = decode_certificate saved v;
          (e', cs) = decode_elements e vs in (e', c # cs))"

text \<open>
  The top-level value stored into \<open>certificates\<close>: an array gives one element per
  member, \<open>null\<close> sets the slice to \<open>nil\<close>, any other kind is an error.
\<close>

definition decode_certificates :: "json \<Rightarrow> json_error option \<times> Certificate list" where
  "decode_certificates v =
     (case v of
        JArray vs \<Rightarrow> decode_elements None vs
      | JNull \<Rightarrow> (None, [])
      | _ \<Rightarrow> (Some (UnmarshalTypeError (json_kind v)), []))"

text \<open>\<open>json.Unmarshal(body, &certificates)\<close>: the error, or the certificates.\<close>

definition json_Unmarshal :: "go_string \<Rightarrow> json_error + Certificate list" where
  "json_Unmarshal data =
     (case json_checkValid data of
        None \<Rightarrow> Inl SyntaxError
      | Some v \<Rightarrow> (case decode_certificates v of (Some e, _) \<Rightarrow> Inl e | (None, cs) \<Rightarrow> Inr cs))"

text \<open>The collaborator \<open>unmarshal\<close> of \<open>Recon_Main\<close>'s world, by \<open>encoding/json\<close>.\<close>

definition json_unmarshal_world :: "go_string \<Rightarrow> unit + Certificate list" where
  "json_unmarshal_world data = (case json_Unmarshal data of Inl _ \<Rightarrow> Inl () | Inr cs \<Rightarrow> Inr cs)"

subsection \<open>The scanner consumes its input\<close>

lemma map_option_pair_Some:
  "map_option (\<lambda>(b, r). (f b, r)) x = Some (b', r) \<longleftrightarrow> (\<exists>b0. x = Some (b0, r) \<and> b' = f b0)"
  by (cases x) auto

lemma skip_space_length: "length (skip_space s) \<le> length s"
  by (simp add: skip_space_def length_dropWhile_le)

lemma scan_string_rest: "scan_string s = Some (b, r) \<Longrightarrow> length r < length s"
proof (induction s arbitrary: b rule: scan_string.induct)
  case 1
  then show ?case by simp
next
  case (2 c s)
  consider (q) "c = CHR 0x22" | (esc) "c \<noteq> CHR 0x22" "c = CHR 0x5C" | (other) "c \<noteq> CHR 0x22" "c \<noteq> CHR 0x5C"
    by blast
  then show ?case
  proof cases
    case q
    then show ?thesis using "2.prems" by simp
  next
    case esc
    then obtain e s' where s: "s = e # s'" using "2.prems" by (cases s) auto
    consider (simple) "e \<in> set [CHR 0x22, CHR 0x5C, CHR ''/'', CHR ''b'', CHR ''f'', CHR ''n'', CHR ''r'', CHR ''t'']"
      | (u) "e \<notin> set [CHR 0x22, CHR 0x5C, CHR ''/'', CHR ''b'', CHR ''f'', CHR ''n'', CHR ''r'', CHR ''t'']"
            "e = CHR ''u''"
      using "2.prems" esc s by (auto split: if_splits)
    then show ?thesis
    proof cases
      case simple
      then obtain b' where "scan_string s' = Some (b', r)"
        using "2.prems" esc s by (auto simp: map_option_pair_Some)
      then show ?thesis using "2.IH"(1) [OF esc s simple] s by fastforce
    next
      case u
      then have h: "4 \<le> length s' \<and> list_all is_hex (take 4 s')"
        using "2.prems" esc s by (auto split: if_splits)
      then obtain b' where "scan_string (drop 4 s') = Some (b', r)"
        using "2.prems" esc s u by (auto simp: map_option_pair_Some)
      then show ?thesis using "2.IH"(2) [OF esc s u h] s by fastforce
    qed
  next
    case other
    then have "\<not> (of_char c :: nat) < 0x20" using "2.prems" by (auto split: if_splits)
    then obtain b' where "scan_string s = Some (b', r)"
      using "2.prems" other by (auto simp: map_option_pair_Some)
    then show ?thesis using "2.IH"(3) [OF other \<open>\<not> (of_char c :: nat) < 0x20\<close>] by fastforce
  qed
qed

lemma scan_map_Scanned: "scan_map f x = Scanned y \<longleftrightarrow> (\<exists>x'. x = Scanned x' \<and> y = f x')"
  by (cases x) auto

lemma scan_map_Out_of_fuel: "scan_map f x = Out_of_fuel \<longleftrightarrow> x = Out_of_fuel"
  by (cases x) auto

lemma scan_digits1_rest: "scan_digits1 s = Some (ds, r) \<Longrightarrow> length r < length s"
proof -
  assume a: "scan_digits1 s = Some (ds, r)"
  then have ds: "ds = takeWhile is_digit s" "ds \<noteq> []" "r = drop (length ds) s"
    by (auto simp: scan_digits1_def Let_def split: if_splits)
  then have "0 < length ds" "length ds \<le> length s" by (simp_all add: length_takeWhile_le)
  moreover have "length r = length s - length ds" using ds(3) by simp
  ultimately show ?thesis by linarith
qed

lemma scan_int_rest: "scan_int s = Some (ip, r) \<Longrightarrow> length r < length s"
  by (cases s) (auto simp: scan_int_def dest: scan_digits1_rest split: if_splits)

lemma scan_frac_rest: "scan_frac s = Some (fp, r) \<Longrightarrow> length r \<le> length s"
  by (cases s) (auto simp: scan_frac_def map_option_pair_Some dest!: scan_digits1_rest split: if_splits)

lemma scan_exp_rest: "scan_exp s = Some (xp, r) \<Longrightarrow> length r \<le> length s"
  by (cases s) (auto simp: scan_exp_def Let_def map_option_pair_Some dest!: scan_digits1_rest split: if_splits)

lemma scan_number_rest: "scan_number s = Some (m, r) \<Longrightarrow> length r < length s"
proof -
  assume a: "scan_number s = Some (m, r)"
  obtain sgn s1 where ss: "(if s \<noteq> [] \<and> hd s = CHR ''-'' then (''-'', tl s) else ([], s)) = (sgn, s1)"
    by fastforce
  have s1: "length s1 \<le> length s" using ss by (auto split: if_splits)
  obtain ip s2 fp s3 xp where i: "scan_int s1 = Some (ip, s2)" and f: "scan_frac s2 = Some (fp, s3)"
    and e: "scan_exp s3 = Some (xp, r)"
    using a ss unfolding scan_number_def by (auto split: option.splits)
  show ?thesis using scan_int_rest [OF i] scan_frac_rest [OF f] scan_exp_rest [OF e] s1 by simp
qed

lemma json_elements_Scanned_cases:
  assumes "json_elements (Suc n) d s = Scanned (vs, r)"
  obtains (last) v r0 where "json_value n d s = Scanned (v, r0)" "skip_space r0 \<noteq> []"
      "vs = [v]" "r = tl (skip_space r0)"
  | (more) v r0 vs' where "json_value n d s = Scanned (v, r0)" "skip_space r0 \<noteq> []"
      "vs = v # vs'" "json_elements n d (skip_space (tl (skip_space r0))) = Scanned (vs', r)"
proof (cases "json_value n d s")
  case (Scanned x)
  obtain v r0 where x: "x = (v, r0)" by fastforce
  show ?thesis
    using assms Scanned x that
    by (auto simp: Let_def scan_map_Scanned split: if_splits)
qed (use assms in auto)

lemma json_members_Scanned_cases:
  assumes "json_members (Suc n) d s = Scanned (ms, r)"
  obtains (last) k r1 v r2 where "s \<noteq> []" "scan_string (tl s) = Some (k, r1)" "skip_space r1 \<noteq> []"
      "json_value n d (skip_space (tl (skip_space r1))) = Scanned (v, r2)" "skip_space r2 \<noteq> []"
      "ms = [(k, v)]" "r = tl (skip_space r2)"
  | (more) k r1 v r2 ms' where "s \<noteq> []" "scan_string (tl s) = Some (k, r1)" "skip_space r1 \<noteq> []"
      "json_value n d (skip_space (tl (skip_space r1))) = Scanned (v, r2)" "skip_space r2 \<noteq> []"
      "ms = (k, v) # ms'" "json_members n d (skip_space (tl (skip_space r2))) = Scanned (ms', r)"
proof -
  have s: "s \<noteq> []" "hd s = CHR ''\"''" using assms by (auto split: if_splits)
  obtain k r1 where k: "scan_string (tl s) = Some (k, r1)"
    using assms s by (auto split: option.splits)
  have c: "skip_space r1 \<noteq> [] \<and> hd (skip_space r1) = CHR '':''"
    using assms s k by (auto simp: Let_def split: if_splits)
  show ?thesis
  proof (cases "json_value n d (skip_space (tl (skip_space r1)))")
    case (Scanned x)
    obtain v r2 where x: "x = (v, r2)" by fastforce
    show ?thesis
      using assms s k c Scanned x that
      by (auto simp: Let_def scan_map_Scanned split: if_splits)
  qed (use assms s k c in auto)
qed

lemma skip_tl_length: "skip_space r \<noteq> [] \<Longrightarrow> length (skip_space (tl (skip_space r))) < length r"
  using skip_space_length [of r] skip_space_length [of "tl (skip_space r)"]
  by (cases "skip_space r") auto

lemma tl_skip_length: "skip_space r \<noteq> [] \<Longrightarrow> length (tl (skip_space r)) < length r"
  using skip_space_length [of r] by (cases "skip_space r") auto

text \<open>The scalar values: numbers and the literals \<open>true\<close>, \<open>false\<close>, \<open>null\<close>.\<close>

lemma json_value_scalar:
  assumes "c \<noteq> CHR ''{''" "c \<noteq> CHR ''[''" "c \<noteq> CHR ''\"''"
  shows "json_value (Suc n) d (c # s0) =
    (if c = CHR ''-'' \<or> is_digit c then
            (case scan_number (c # s0) of None \<Rightarrow> Syntax_error | Some (m, r') \<Rightarrow> Scanned (JNumber m, r'))
          else if prefix ''true'' (c # s0) then Scanned (JBool True, drop 4 (c # s0))
          else if prefix ''false'' (c # s0) then Scanned (JBool False, drop 5 (c # s0))
          else if prefix ''null'' (c # s0) then Scanned (JNull, drop 4 (c # s0))
          else Syntax_error)"
  using assms by (simp only: json_value.simps list.case if_False simp_thms)

lemma json_value_Cons_rest:
  assumes a: "json_value (Suc n) d (c # s0) = Scanned (v, r)"
    and ihe: "\<And>d s vs r. json_elements n d s = Scanned (vs, r) \<Longrightarrow> length r < length s"
    and ihm: "\<And>d s ms r. json_members n d s = Scanned (ms, r) \<Longrightarrow> length r < length s"
  shows "length r < Suc (length s0)"
proof -
  consider (obj) "c = CHR ''{''" | (arr) "c = CHR ''[''" | (str) "c = CHR ''\"''"
    | (scalar) "c \<noteq> CHR ''{''" "c \<noteq> CHR ''[''" "c \<noteq> CHR ''\"''"
    by blast
  then show ?thesis
  proof cases
    case obj
    then show ?thesis using a skip_space_length [of s0]
      by (auto simp: Let_def scan_map_Scanned split: if_splits dest!: ihm)
  next
    case arr
    then show ?thesis using a skip_space_length [of s0]
      by (auto simp: Let_def scan_map_Scanned split: if_splits dest!: ihe)
  next
    case str
    then show ?thesis using a by (auto split: option.splits dest!: scan_string_rest)
  next
    case scalar
    show ?thesis using a unfolding json_value_scalar [OF scalar]
      by (auto split: if_split_asm option.split_asm dest!: scan_number_rest)
  qed
qed

lemma json_scan_rest:
  "(\<forall>d s v r. json_value n d s = Scanned (v, r) \<longrightarrow> length r < length s) \<and>
   (\<forall>d s vs r. json_elements n d s = Scanned (vs, r) \<longrightarrow> length r < length s) \<and>
   (\<forall>d s ms r. json_members n d s = Scanned (ms, r) \<longrightarrow> length r < length s)"
proof (induction n)
  case 0
  then show ?case by simp
next
  case (Suc n)
  have ihv: "\<And>d s v r. json_value n d s = Scanned (v, r) \<Longrightarrow> length r < length s"
    using Suc.IH by blast
  have ihe: "\<And>d s vs r. json_elements n d s = Scanned (vs, r) \<Longrightarrow> length r < length s"
    using Suc.IH by blast
  have ihm: "\<And>d s ms r. json_members n d s = Scanned (ms, r) \<Longrightarrow> length r < length s"
    using Suc.IH by blast
  have V: "length r < length s" if a: "json_value (Suc n) d s = Scanned (v, r)" for d s v r
  proof (cases s)
    case Nil
    then show ?thesis using a by simp
  next
    case (Cons c s0)
    then show ?thesis using json_value_Cons_rest [OF a [unfolded Cons] ihe ihm] by simp
  qed
  have E: "length r < length s" if a: "json_elements (Suc n) d s = Scanned (vs, r)" for d s vs r
    using a
  proof (cases rule: json_elements_Scanned_cases)
    case (last v r0)
    then show ?thesis using ihv [OF last(1)] tl_skip_length [OF last(2)] by simp
  next
    case (more v r0 vs')
    then show ?thesis using ihv [OF more(1)] skip_tl_length [OF more(2)] ihe [OF more(4)] by simp
  qed
  have M: "length r < length s" if a: "json_members (Suc n) d s = Scanned (ms, r)" for d s ms r
    using a
  proof (cases rule: json_members_Scanned_cases)
    case (last k r1 v r2)
    then show ?thesis
      using scan_string_rest [OF last(2)] skip_tl_length [OF last(3)] ihv [OF last(4)]
        tl_skip_length [OF last(5)]
      by simp
  next
    case (more k r1 v r2 ms')
    then show ?thesis
      using scan_string_rest [OF more(2)] skip_tl_length [OF more(3)] ihv [OF more(4)]
        skip_tl_length [OF more(5)] ihm [OF more(7)]
      by simp
  qed
  show ?case using V E M by blast
qed

lemma json_value_rest: "json_value n d s = Scanned (v, r) \<Longrightarrow> length r < length s"
  using json_scan_rest by blast

lemma json_value_Out_of_fuelD:
  assumes "json_value (Suc n) d s = Out_of_fuel"
  shows "\<exists>c s0. s = c # s0 \<and>
           (json_members n (d + 1) (skip_space s0) = Out_of_fuel \<or>
            json_elements n (d + 1) (skip_space s0) = Out_of_fuel)"
proof (cases s)
  case Nil
  then show ?thesis using assms by simp
next
  case (Cons c s0)
  consider (obj) "c = CHR ''{''" | (arr) "c = CHR ''[''" | (str) "c = CHR ''\"''"
    | (scalar) "c \<noteq> CHR ''{''" "c \<noteq> CHR ''[''" "c \<noteq> CHR ''\"''"
    by blast
  then show ?thesis
  proof cases
    case obj
    then show ?thesis using assms Cons by (auto simp: Let_def scan_map_Out_of_fuel split: if_splits)
  next
    case arr
    then show ?thesis using assms Cons by (auto simp: Let_def scan_map_Out_of_fuel split: if_splits)
  next
    case str
    then show ?thesis using assms Cons by (auto split: option.splits)
  next
    case scalar
    show ?thesis using assms unfolding Cons json_value_scalar [OF scalar]
      by (auto split: if_split_asm option.split_asm)
  qed
qed

lemma json_elements_Out_of_fuelD:
  assumes "json_elements (Suc n) d s = Out_of_fuel"
  shows "json_value n d s = Out_of_fuel \<or>
         (\<exists>v r0. json_value n d s = Scanned (v, r0) \<and> skip_space r0 \<noteq> [] \<and>
                 json_elements n d (skip_space (tl (skip_space r0))) = Out_of_fuel)"
proof (cases "json_value n d s")
  case (Scanned x)
  obtain v r0 where x: "x = (v, r0)" by fastforce
  show ?thesis
    using assms Scanned x by (auto simp: Let_def scan_map_Out_of_fuel split: if_splits)
qed (use assms in auto)

lemma json_members_Out_of_fuelD:
  assumes "json_members (Suc n) d s = Out_of_fuel"
  shows "\<exists>k r1. s \<noteq> [] \<and> scan_string (tl s) = Some (k, r1) \<and> skip_space r1 \<noteq> [] \<and>
           (json_value n d (skip_space (tl (skip_space r1))) = Out_of_fuel \<or>
            (\<exists>v r2. json_value n d (skip_space (tl (skip_space r1))) = Scanned (v, r2) \<and>
                    skip_space r2 \<noteq> [] \<and>
                    json_members n d (skip_space (tl (skip_space r2))) = Out_of_fuel))"
proof -
  have s: "s \<noteq> []" "hd s = CHR ''\"''" using assms by (auto split: if_splits)
  obtain k r1 where k: "scan_string (tl s) = Some (k, r1)"
    using assms s by (auto split: option.splits)
  have c: "skip_space r1 \<noteq> [] \<and> hd (skip_space r1) = CHR '':''"
    using assms s k by (auto simp: Let_def split: if_splits)
  show ?thesis
  proof (cases "json_value n d (skip_space (tl (skip_space r1)))")
    case (Scanned x)
    obtain v r2 where x: "x = (v, r2)" by fastforce
    show ?thesis
      using assms s k c Scanned x by (auto simp: Let_def scan_map_Out_of_fuel split: if_splits)
  qed (use assms s k c in auto)
qed


lemma json_value_fuel_enough_step:
  assumes ihe: "\<And>d s. 2 * length s + 1 < n \<Longrightarrow> json_elements n d s \<noteq> Out_of_fuel"
    and ihm: "\<And>d s. 2 * length s + 1 < n \<Longrightarrow> json_members n d s \<noteq> Out_of_fuel"
    and f: "2 * length s < Suc n"
  shows "json_value (Suc n) d s \<noteq> Out_of_fuel"
proof
  assume "json_value (Suc n) d s = Out_of_fuel"
  then obtain c s0 where s: "s = c # s0"
    and o: "json_members n (d + 1) (skip_space s0) = Out_of_fuel \<or>
            json_elements n (d + 1) (skip_space s0) = Out_of_fuel"
    by (blast dest: json_value_Out_of_fuelD)
  have "2 * length (skip_space s0) + 1 < n" using f s skip_space_length [of s0] by simp
  then show False using o ihe ihm by blast
qed

lemma json_elements_fuel_enough_step:
  assumes ihv: "\<And>d s. 2 * length s < n \<Longrightarrow> json_value n d s \<noteq> Out_of_fuel"
    and ihe: "\<And>d s. 2 * length s + 1 < n \<Longrightarrow> json_elements n d s \<noteq> Out_of_fuel"
    and f: "2 * length s + 1 < Suc n"
  shows "json_elements (Suc n) d s \<noteq> Out_of_fuel"
proof
  assume "json_elements (Suc n) d s = Out_of_fuel"
  moreover have "json_value n d s \<noteq> Out_of_fuel" using f by (intro ihv) simp
  ultimately obtain v r0 where v: "json_value n d s = Scanned (v, r0)" and ne: "skip_space r0 \<noteq> []"
    and o: "json_elements n d (skip_space (tl (skip_space r0))) = Out_of_fuel"
    by (blast dest: json_elements_Out_of_fuelD)
  have "2 * length (skip_space (tl (skip_space r0))) + 1 < n"
    using f json_value_rest [OF v] skip_tl_length [OF ne] by simp
  then show False using o ihe by blast
qed

lemma json_members_fuel_enough_step:
  assumes ihv: "\<And>d s. 2 * length s < n \<Longrightarrow> json_value n d s \<noteq> Out_of_fuel"
    and ihm: "\<And>d s. 2 * length s + 1 < n \<Longrightarrow> json_members n d s \<noteq> Out_of_fuel"
    and f: "2 * length s + 1 < Suc n"
  shows "json_members (Suc n) d s \<noteq> Out_of_fuel"
proof
  assume "json_members (Suc n) d s = Out_of_fuel"
  then obtain k r1 where s: "s \<noteq> []" and k: "scan_string (tl s) = Some (k, r1)"
    and ne1: "skip_space r1 \<noteq> []"
    and o: "json_value n d (skip_space (tl (skip_space r1))) = Out_of_fuel \<or>
          (\<exists>v r2. json_value n d (skip_space (tl (skip_space r1))) = Scanned (v, r2) \<and>
                  skip_space r2 \<noteq> [] \<and>
                  json_members n d (skip_space (tl (skip_space r2))) = Out_of_fuel)"
    by (blast dest: json_members_Out_of_fuelD)
  have l1: "length (skip_space (tl (skip_space r1))) < length s"
    using scan_string_rest [OF k] skip_tl_length [OF ne1] s by simp
  show False
  proof (cases "json_value n d (skip_space (tl (skip_space r1))) = Out_of_fuel")
    case True
    then show False using ihv [of "skip_space (tl (skip_space r1))" d] l1 f by simp
  next
    case False
    then obtain v r2 where v: "json_value n d (skip_space (tl (skip_space r1))) = Scanned (v, r2)"
      and ne2: "skip_space r2 \<noteq> []"
      and o2: "json_members n d (skip_space (tl (skip_space r2))) = Out_of_fuel"
      using o by blast
    have "2 * length (skip_space (tl (skip_space r2))) + 1 < n"
      using f l1 json_value_rest [OF v] skip_tl_length [OF ne2] by simp
    then show False using o2 ihm by blast
  qed
qed

lemma json_fuel_enough:
  "(2 * length s < n \<longrightarrow> json_value n d s \<noteq> Out_of_fuel) \<and>
   (2 * length s + 1 < n \<longrightarrow> json_elements n d s \<noteq> Out_of_fuel) \<and>
   (2 * length s + 1 < n \<longrightarrow> json_members n d s \<noteq> Out_of_fuel)"
proof (induction n arbitrary: d s)
  case 0
  then show ?case by simp
next
  case (Suc n)
  have ihv: "\<And>d s. 2 * length s < n \<Longrightarrow> json_value n d s \<noteq> Out_of_fuel"
    using Suc.IH by blast
  have ihe: "\<And>d s. 2 * length s + 1 < n \<Longrightarrow> json_elements n d s \<noteq> Out_of_fuel"
    using Suc.IH by blast
  have ihm: "\<And>d s. 2 * length s + 1 < n \<Longrightarrow> json_members n d s \<noteq> Out_of_fuel"
    using Suc.IH by blast
  show ?case
    using json_value_fuel_enough_step [OF ihe ihm] json_elements_fuel_enough_step [OF ihv ihe]
      json_members_fuel_enough_step [OF ihv ihm]
    by blast
qed

lemma json_fuel_value: "2 * length s < n \<Longrightarrow> json_value n d s \<noteq> Out_of_fuel"
  using json_fuel_enough by blast

lemma json_value_leaf_fuel:
  assumes "c \<noteq> CHR ''{''" "c \<noteq> CHR ''[''"
  shows "json_value (Suc m) d (c # s0) = json_value (Suc n) d (c # s0)"
  using assms by (simp only: json_value.simps list.case if_False simp_thms)

lemma json_value_fuel_step:
  assumes ihe: "\<And>d s. json_elements n d s \<noteq> Out_of_fuel \<Longrightarrow> json_elements m d s = json_elements n d s"
    and ihm: "\<And>d s. json_members n d s \<noteq> Out_of_fuel \<Longrightarrow> json_members m d s = json_members n d s"
    and ne: "json_value (Suc n) d s \<noteq> Out_of_fuel"
  shows "json_value (Suc m) d s = json_value (Suc n) d s"
proof (cases s)
  case Nil
  then show ?thesis by simp
next
  case (Cons c s0)
  consider (obj) "c = CHR ''{''" | (arr) "c = CHR ''[''" | (other) "c \<noteq> CHR ''{''" "c \<noteq> CHR ''[''"
    by blast
  then show ?thesis
  proof cases
    case obj
    show ?thesis
    proof (cases "maxNestingDepth < d + 1 \<or> (skip_space s0 \<noteq> [] \<and> hd (skip_space s0) = CHR ''}'')")
      case True
      then show ?thesis using obj Cons by (auto simp: Let_def)
    next
      case False
      then have "scan_map (\<lambda>(ms, r''). (JObject ms, r'')) (json_members n (d + 1) (skip_space s0)) \<noteq> Out_of_fuel"
        using ne obj Cons by (simp add: Let_def split: if_split_asm)
      then have "json_members m (d + 1) (skip_space s0) = json_members n (d + 1) (skip_space s0)"
        by (intro ihm) (simp add: scan_map_Out_of_fuel)
      then show ?thesis using False obj Cons by (auto simp: Let_def)
    qed
  next
    case arr
    show ?thesis
    proof (cases "maxNestingDepth < d + 1 \<or> (skip_space s0 \<noteq> [] \<and> hd (skip_space s0) = CHR '']'')")
      case True
      then show ?thesis using arr Cons by (auto simp: Let_def)
    next
      case False
      then have "scan_map (\<lambda>(vs, r''). (JArray vs, r'')) (json_elements n (d + 1) (skip_space s0)) \<noteq> Out_of_fuel"
        using ne arr Cons by (simp add: Let_def split: if_split_asm)
      then have "json_elements m (d + 1) (skip_space s0) = json_elements n (d + 1) (skip_space s0)"
        by (intro ihe) (simp add: scan_map_Out_of_fuel)
      then show ?thesis using False arr Cons by (auto simp: Let_def)
    qed
  next
    case other
    show ?thesis unfolding Cons by (rule json_value_leaf_fuel [OF other])
  qed
qed

lemma json_elements_fuel_step:
  assumes ihv: "\<And>d s. json_value n d s \<noteq> Out_of_fuel \<Longrightarrow> json_value m d s = json_value n d s"
    and ihe: "\<And>d s. json_elements n d s \<noteq> Out_of_fuel \<Longrightarrow> json_elements m d s = json_elements n d s"
    and ne: "json_elements (Suc n) d s \<noteq> Out_of_fuel"
  shows "json_elements (Suc m) d s = json_elements (Suc n) d s"
proof -
  have "json_value n d s \<noteq> Out_of_fuel"
  proof
    assume "json_value n d s = Out_of_fuel"
    then show False using ne by simp
  qed
  then have v: "json_value m d s = json_value n d s" by (rule ihv)
  show ?thesis
  proof (cases "json_value n d s")
    case (Scanned x)
    obtain v r0 where x: "x = (v, r0)" by fastforce
    show ?thesis
    proof (cases "skip_space r0 \<noteq> [] \<and> hd (skip_space r0) = CHR '',''")
      case True
      then have "json_elements m d (skip_space (tl (skip_space r0))) =
                 json_elements n d (skip_space (tl (skip_space r0)))"
        using ne Scanned x by (intro ihe) (simp add: Let_def scan_map_Out_of_fuel)
      then show ?thesis using v Scanned x True by (simp add: Let_def)
    next
      case False
      then show ?thesis using v Scanned x by (auto simp: Let_def)
    qed
  qed (use v in simp_all)
qed

lemma json_members_fuel_step:
  assumes ihv: "\<And>d s. json_value n d s \<noteq> Out_of_fuel \<Longrightarrow> json_value m d s = json_value n d s"
    and ihm: "\<And>d s. json_members n d s \<noteq> Out_of_fuel \<Longrightarrow> json_members m d s = json_members n d s"
    and ne: "json_members (Suc n) d s \<noteq> Out_of_fuel"
  shows "json_members (Suc m) d s = json_members (Suc n) d s"
proof (cases "s \<noteq> [] \<and> hd s = CHR ''\"''")
  case q: True
  show ?thesis
  proof (cases "scan_string (tl s)")
    case (Some y)
    obtain k r1 where y: "y = (k, r1)" by fastforce
    show ?thesis
    proof (cases "skip_space r1 \<noteq> [] \<and> hd (skip_space r1) = CHR '':''")
      case c: True
      let ?s1 = "skip_space (tl (skip_space r1))"
      have "json_value n d ?s1 \<noteq> Out_of_fuel"
      proof
        assume "json_value n d ?s1 = Out_of_fuel"
        then show False using ne q Some y c by (simp add: Let_def)
      qed
      then have v: "json_value m d ?s1 = json_value n d ?s1" by (rule ihv)
      show ?thesis
      proof (cases "json_value n d ?s1")
        case (Scanned x)
        obtain v r2 where x: "x = (v, r2)" by fastforce
        show ?thesis
        proof (cases "skip_space r2 \<noteq> [] \<and> hd (skip_space r2) = CHR '',''")
          case True
          then have "json_members m d (skip_space (tl (skip_space r2))) =
                     json_members n d (skip_space (tl (skip_space r2)))"
            using ne q Some y c Scanned x by (intro ihm) (simp add: Let_def scan_map_Out_of_fuel)
          then show ?thesis using q Some y c v Scanned x True by (simp add: Let_def)
        next
          case False
          then show ?thesis using q Some y c v Scanned x by (auto simp: Let_def)
        qed
      qed (use q Some y c v in \<open>simp_all add: Let_def\<close>)
    next
      case False
      then show ?thesis using q Some y by (auto simp: Let_def)
    qed
  qed (use q in simp)
next
  case False
  then show ?thesis by auto
qed

lemma json_fuel_mono:
  "(\<forall>m d s. n \<le> m \<longrightarrow> json_value n d s \<noteq> Out_of_fuel \<longrightarrow> json_value m d s = json_value n d s) \<and>
   (\<forall>m d s. n \<le> m \<longrightarrow> json_elements n d s \<noteq> Out_of_fuel \<longrightarrow> json_elements m d s = json_elements n d s) \<and>
   (\<forall>m d s. n \<le> m \<longrightarrow> json_members n d s \<noteq> Out_of_fuel \<longrightarrow> json_members m d s = json_members n d s)"
proof (induction n)
  case 0
  then show ?case by simp
next
  case (Suc n)
  show ?case
  proof (intro conjI allI impI)
    fix m d s
    assume "Suc n \<le> m"
    then obtain m' where m: "m = Suc m'" "n \<le> m'" by (cases m) auto
    have ihv: "\<And>d s. json_value n d s \<noteq> Out_of_fuel \<Longrightarrow> json_value m' d s = json_value n d s"
      using Suc.IH m(2) by blast
    have ihe: "\<And>d s. json_elements n d s \<noteq> Out_of_fuel \<Longrightarrow> json_elements m' d s = json_elements n d s"
      using Suc.IH m(2) by blast
    have ihm: "\<And>d s. json_members n d s \<noteq> Out_of_fuel \<Longrightarrow> json_members m' d s = json_members n d s"
      using Suc.IH m(2) by blast
    { assume ne: "json_value (Suc n) d s \<noteq> Out_of_fuel"
      show "json_value m d s = json_value (Suc n) d s"
        unfolding m(1) by (rule json_value_fuel_step [OF ihe ihm ne]) }
    { assume ne: "json_elements (Suc n) d s \<noteq> Out_of_fuel"
      show "json_elements m d s = json_elements (Suc n) d s"
        unfolding m(1) by (rule json_elements_fuel_step [OF ihv ihe ne]) }
    { assume ne: "json_members (Suc n) d s \<noteq> Out_of_fuel"
      show "json_members m d s = json_members (Suc n) d s"
        unfolding m(1) by (rule json_members_fuel_step [OF ihv ihm ne]) }
  qed
qed

lemma json_value_mono:
  "json_value n d s \<noteq> Out_of_fuel \<Longrightarrow> n \<le> m \<Longrightarrow> json_value m d s = json_value n d s"
  using json_fuel_mono by blast

text \<open>A scan with any fuel that ends in white space is what \<open>checkValid\<close> finds.\<close>

lemma json_checkValid_Scanned:
  assumes sc: "json_value n 0 (skip_space data) = Scanned (v, r)" and e: "skip_space r = []"
  shows "json_checkValid data = Some v"
proof -
  let ?N = "max n (json_fuel data)"
  have f: "json_value (json_fuel data) 0 (skip_space data) \<noteq> Out_of_fuel"
    using json_fuel_value [of "skip_space data" "json_fuel data"] skip_space_length [of data]
    by (simp add: json_fuel_def)
  have "json_value ?N 0 (skip_space data) = json_value n 0 (skip_space data)"
    by (rule json_value_mono) (simp_all add: sc)
  moreover have "json_value ?N 0 (skip_space data) = json_value (json_fuel data) 0 (skip_space data)"
    by (rule json_value_mono) (simp_all add: f)
  ultimately show ?thesis unfolding json_checkValid_def using sc e by simp
qed

subsection \<open>Unquoting the strings the scanner accepts\<close>

lemma scan_string_raw_ok: "scan_string s = Some (b, r) \<Longrightarrow> raw_ok b"
proof (induction s arbitrary: b rule: scan_string.induct)
  case 1
  then show ?case by simp
next
  case (2 c s)
  consider (q) "c = CHR 0x22" | (esc) "c \<noteq> CHR 0x22" "c = CHR 0x5C" | (other) "c \<noteq> CHR 0x22" "c \<noteq> CHR 0x5C"
    by blast
  then show ?case
  proof cases
    case q
    then show ?thesis using "2.prems" by auto
  next
    case esc
    then obtain e s' where s: "s = e # s'" using "2.prems" by (cases s) auto
    consider (simple) "e \<in> set [CHR 0x22, CHR 0x5C, CHR ''/'', CHR ''b'', CHR ''f'', CHR ''n'', CHR ''r'', CHR ''t'']"
      | (u) "e \<notin> set [CHR 0x22, CHR 0x5C, CHR ''/'', CHR ''b'', CHR ''f'', CHR ''n'', CHR ''r'', CHR ''t'']"
            "e = CHR ''u''"
      using "2.prems" esc s by (auto split: if_splits)
    then show ?thesis
    proof cases
      case simple
      then obtain b' where b: "scan_string s' = Some (b', r)" "b = c # e # b'"
        using "2.prems" esc s by (auto simp: map_option_pair_Some)
      then show ?thesis using "2.IH"(1) [OF esc s simple b(1)] esc simple by simp
    next
      case u
      then have h: "4 \<le> length s' \<and> list_all is_hex (take 4 s')"
        using "2.prems" esc s by (auto split: if_splits)
      then obtain b' where b: "scan_string (drop 4 s') = Some (b', r)" "b = c # e # take 4 s' @ b'"
        using "2.prems" esc s u by (auto simp: map_option_pair_Some)
      then show ?thesis using "2.IH"(2) [OF esc s u h b(1)] esc u h by simp
    qed
  next
    case other
    then have ctl: "\<not> (of_char c :: nat) < 0x20" using "2.prems" by (auto split: if_splits)
    then obtain b' where b: "scan_string s = Some (b', r)" "b = c # b'"
      using "2.prems" other by (auto simp: map_option_pair_Some)
    then show ?thesis using "2.IH"(3) [OF other ctl b(1)] other ctl by simp
  qed
qed


lemma raw_ok_drop_high:
  "raw_ok xs \<Longrightarrow> \<forall>b\<in>set (take k xs). 0x80 \<le> (of_char b :: nat) \<Longrightarrow> raw_ok (drop k xs)"
proof (induction xs arbitrary: k)
  case Nil
  then show ?case by simp
next
  case (Cons c s)
  show ?case
  proof (cases k)
    case 0
    then show ?thesis using Cons.prems by simp
  next
    case (Suc k')
    have c: "0x80 \<le> (of_char c :: nat)" using Cons.prems(2) Suc by simp
    then have "c \<noteq> CHR 0x22" "c \<noteq> CHR 0x5C" "\<not> (of_char c :: nat) < 0x20" by auto
    then have "raw_ok s" using Cons.prems(1) by simp
    then show ?thesis using Cons.IH [of k'] Cons.prems(2) Suc by simp
  qed
qed

lemma decode_take_high:
  assumes dec: "go_DecodeRune (c # cs) = (r, n)" and c: "0x80 \<le> (of_char c :: nat)"
  shows "\<forall>b\<in>set (take n (c # cs)). 0x80 \<le> (of_char b :: nat)"
proof (cases "(r, n) = (RuneError, 1)")
  case True
  then show ?thesis using c by auto
next
  case False
  have enc: "take n (c # cs) = go_EncodeRune r" and v: "valid_rune r"
    using decode_valid_encoding [OF dec False] by simp_all
  show ?thesis
  proof (cases "r \<le> 0x7F")
    case True
    then have "take n (c # cs) = [char_of r]" using enc by (simp add: go_EncodeRune_def)
    then have "n \<noteq> 0" "c = char_of r" by (auto simp: take_Cons' split: if_splits)
    then show ?thesis using c True by simp
  next
    case False
    obtain c' cs' where e: "go_EncodeRune r = c' # cs'" "RuneSelf \<le> of_char c'"
      "\<forall>b \<in> set cs'. is_cont (of_char b)"
      using encode_multi [OF v] False by (metis not_le)
    then show ?thesis using enc by (auto simp: RuneSelf_def is_cont_def)
  qed
qed

lemma raw_ok_getu4:
  assumes "raw_ok b" "getu4 b = Some x"
  shows "raw_ok (drop 6 b)"
proof -
  have h: "6 \<le> length b" "b ! 0 = CHR 0x5C" "b ! 1 = CHR ''u''"
    using assms(2) by (auto simp: getu4_def split: if_splits)
  then have "b = CHR 0x5C # CHR ''u'' # drop 2 b" using list_split_2 [of b] by simp
  then obtain s' where b: "b = CHR 0x5C # CHR ''u'' # s'" by blast
  show ?thesis using assms(1) unfolding b by simp
qed


text \<open>The escape \<open>\u\<close>: the loop goes on after one or two escapes, both acceptable.\<close>

lemma raw_ok_unquote_u:
  assumes ok: "raw_ok (CHR 0x5C # CHR ''u'' # s')"
    and ih: "\<And>t. length t < Suc (Suc (length s')) \<Longrightarrow> raw_ok t \<Longrightarrow> unquote_loop t \<noteq> None"
  shows "unquote_loop (CHR 0x5C # CHR ''u'' # s') \<noteq> None"
proof -
  let ?b = "CHR 0x5C # CHR ''u'' # s'"
  have h: "4 \<le> length s'" "list_all is_hex (take 4 s')" "raw_ok (drop 4 s')"
    using ok by simp_all
  then obtain rr where g: "getu4 ?b = Some rr" by (auto simp: getu4_def)
  have six: "unquote_loop (drop 6 ?b) \<noteq> None" using ih [of "drop 6 ?b"] h by simp
  show ?thesis
  proof (cases "utf16_IsSurrogate rr \<and> utf16_DecodeRune rr (getu4 (drop 6 ?b)) \<noteq> RuneError")
    case True
    then obtain x where "getu4 (drop 6 ?b) = Some x"
      by (cases "getu4 (drop 6 ?b)") (auto simp: utf16_DecodeRune_def)
    then have "raw_ok (drop 12 ?b)" using raw_ok_getu4 [of "drop 6 ?b" x] h(3) by simp
    then have "unquote_loop (drop 12 ?b) \<noteq> None" using ih [of "drop 12 ?b"] h by simp
    then show ?thesis using g True by (auto simp: Let_def)
  next
    case False
    then show ?thesis using g six by (auto simp: Let_def)
  qed
qed

lemma raw_ok_unquote_loop: "raw_ok b \<Longrightarrow> unquote_loop b \<noteq> None"
proof (induction "length b" arbitrary: b rule: less_induct)
  case less
  have ih: "\<And>t. length t < length b \<Longrightarrow> raw_ok t \<Longrightarrow> unquote_loop t \<noteq> None"
    using less.hyps by blast
  show ?case
  proof (cases b)
    case Nil
    then show ?thesis by simp
  next
    case (Cons c s)
    consider (esc) e s' where "c = CHR 0x5C" "s = e # s'" | (plain) "c \<noteq> CHR 0x5C"
      using less.prems Cons by (cases s) (auto split: if_splits)
    then show ?thesis
    proof cases
      case esc
      show ?thesis
      proof (cases "e = CHR ''u''")
        case True
        then show ?thesis using raw_ok_unquote_u [of s'] less.prems ih Cons esc by simp
      next
        case False
        then show ?thesis using less.prems ih [of s'] Cons esc by (auto split: if_splits)
      qed
    next
      case plain
      then have p: "c \<noteq> CHR 0x22" "\<not> (of_char c :: nat) < 0x20" "raw_ok s"
        using less.prems Cons by (auto split: if_splits)
      show ?thesis
      proof (cases "(of_char c :: nat) < RuneSelf")
        case True
        then show ?thesis using ih [of s] p plain Cons by simp
      next
        case False
        obtain rr size where d: "go_DecodeRune (c # s) = (rr, size)" by fastforce
        have "raw_ok (drop size (c # s))"
          using raw_ok_drop_high [OF less.prems [unfolded Cons] decode_take_high [OF d]] False
          by (simp add: RuneSelf_def)
        moreover have "0 < size" using decode_width [OF d] by simp
        ultimately have "unquote_loop (drop size (c # s)) \<noteq> None" using ih [of "drop size (c # s)"] Cons by simp
        then show ?thesis using p plain False d Cons by (auto simp del: go_DecodeRune.simps)
      qed
    qed
  qed
qed


lemma unquote_plain_split:
  "unquote_loop s = map_option (append (take (unquote_plain_prefix s) s)) (unquote_loop (drop (unquote_plain_prefix s) s))"
proof (induction s rule: unquote_plain_prefix.induct)
  case 1
  then show ?case by simp
next
  case (2 c s)
  show ?case
  proof (cases "c = CHR 0x5C \<or> c = CHR 0x22 \<or> (of_char c :: nat) < 0x20")
    case True
    then show ?thesis by (simp add: option.map_ident)
  next
    case plain: False
    show ?thesis
    proof (cases "(of_char c :: nat) < RuneSelf")
      case True
      then show ?thesis using "2.IH"(1) [OF plain True] plain
        by (cases "unquote_loop (drop (unquote_plain_prefix s) s)") simp_all
    next
      case high: False
      obtain rr size where d: "go_DecodeRune (c # s) = (rr, size)" by fastforce
      show ?thesis
      proof (cases "rr = RuneError \<and> size = 1")
        case True
        then show ?thesis using plain high d by (simp add: option.map_ident del: go_DecodeRune.simps)
      next
        case False
        have enc: "take size (c # s) = go_EncodeRune rr"
          using decode_valid_encoding [OF d] False by simp
        have ih: "unquote_loop (drop size (c # s)) =
          map_option (append (take (unquote_plain_prefix (drop size (c # s))) (drop size (c # s))))
            (unquote_loop (drop (unquote_plain_prefix (drop size (c # s))) (drop size (c # s))))"
          using "2.IH"(2) [OF plain high d [symmetric] refl] False by simp
        show ?thesis
          using plain high d False
          by (auto simp add: ih enc [symmetric] take_add option.map_comp o_def add.commute simp del: go_DecodeRune.simps)
      qed
    qed
  qed
qed

text \<open>What the decoding loop returns, \<open>unquoteBytes\<close> returns.\<close>

lemma go_unquote_Some: "unquote_loop s = Some x \<Longrightarrow> go_unquote s = Some x"
  using unquote_plain_split [of s] by (auto simp: go_unquote_def Let_def)

subsection \<open>The decoder on the values the scanner accepts\<close>

lemma json_value_ok_step:
  assumes ihe: "\<And>d s vs r. json_elements n d s = Scanned (vs, r) \<Longrightarrow> \<forall>v\<in>set vs. json_ok v"
    and ihm: "\<And>d s ms r. json_members n d s = Scanned (ms, r) \<Longrightarrow> \<forall>m\<in>set ms. raw_ok (fst m) \<and> json_ok (snd m)"
    and a: "json_value (Suc n) d s = Scanned (v, r)"
  shows "json_ok v"
proof (cases s)
  case Nil
  then show ?thesis using a by simp
next
  case (Cons c s0)
  consider (obj) "c = CHR ''{''" | (arr) "c = CHR ''[''" | (str) "c = CHR ''\"''"
    | (scalar) "c \<noteq> CHR ''{''" "c \<noteq> CHR ''[''" "c \<noteq> CHR ''\"''"
    by blast
  then show ?thesis
  proof cases
    case obj
    then show ?thesis using a Cons
      by (auto simp: Let_def scan_map_Scanned split: if_splits dest!: ihm)
  next
    case arr
    then show ?thesis using a Cons
      by (auto simp: Let_def scan_map_Scanned split: if_splits dest!: ihe)
  next
    case str
    then show ?thesis using a Cons by (auto split: option.splits dest!: scan_string_raw_ok)
  next
    case scalar
    show ?thesis using a unfolding Cons json_value_scalar [OF scalar]
      by (auto split: if_split_asm option.split_asm)
  qed
qed

lemma json_scan_ok:
  "(\<forall>d s v r. json_value n d s = Scanned (v, r) \<longrightarrow> json_ok v) \<and>
   (\<forall>d s vs r. json_elements n d s = Scanned (vs, r) \<longrightarrow> (\<forall>v\<in>set vs. json_ok v)) \<and>
   (\<forall>d s ms r. json_members n d s = Scanned (ms, r) \<longrightarrow> (\<forall>m\<in>set ms. raw_ok (fst m) \<and> json_ok (snd m)))"
proof (induction n)
  case 0
  then show ?case by simp
next
  case (Suc n)
  have ihv: "\<And>d s v r. json_value n d s = Scanned (v, r) \<Longrightarrow> json_ok v"
    using Suc.IH by blast
  have ihe: "\<And>d s vs r. json_elements n d s = Scanned (vs, r) \<Longrightarrow> \<forall>v\<in>set vs. json_ok v"
    using Suc.IH by blast
  have ihm: "\<And>d s ms r. json_members n d s = Scanned (ms, r) \<Longrightarrow> \<forall>m\<in>set ms. raw_ok (fst m) \<and> json_ok (snd m)"
    using Suc.IH by blast
  have V: "json_ok v" if a: "json_value (Suc n) d s = Scanned (v, r)" for d s v r
    using ihe ihm a by (rule json_value_ok_step)
  have E: "\<forall>v\<in>set vs. json_ok v" if a: "json_elements (Suc n) d s = Scanned (vs, r)" for d s vs r
    using a
  proof (cases rule: json_elements_Scanned_cases)
    case (last v r0)
    then show ?thesis using ihv [OF last(1)] by simp
  next
    case (more v r0 vs')
    then show ?thesis using ihv [OF more(1)] ihe [OF more(4)] by simp
  qed
  have M: "\<forall>m\<in>set ms. raw_ok (fst m) \<and> json_ok (snd m)" if a: "json_members (Suc n) d s = Scanned (ms, r)" for d s ms r
    using a
  proof (cases rule: json_members_Scanned_cases)
    case (last k r1 v r2)
    then show ?thesis using scan_string_raw_ok [OF last(2)] ihv [OF last(4)] by simp
  next
    case (more k r1 v r2 ms')
    then show ?thesis using scan_string_raw_ok [OF more(2)] ihv [OF more(4)] ihm [OF more(7)] by simp
  qed
  show ?case using V E M by blast
qed


lemma json_value_ok: "json_value n d s = Scanned (v, r) \<Longrightarrow> json_ok v"
  using json_scan_ok by blast

lemma raw_ok_go_unquote: "raw_ok b \<Longrightarrow> go_unquote b \<noteq> None"
  using go_unquote_Some raw_ok_unquote_loop by blast

lemma save_error_not_syntax:
  "saved \<noteq> Some SyntaxError \<Longrightarrow> e \<noteq> Some SyntaxError \<Longrightarrow> save_error saved e \<noteq> Some SyntaxError"
  by (cases saved) (simp_all add: save_error_def)

lemma store_string_ok: "json_ok v \<Longrightarrow> fst (store_string cur v) \<noteq> Some SyntaxError"
  by (cases v) (auto simp: store_string_def dest: raw_ok_go_unquote split: option.splits)

lemma decode_members_ok:
  "saved \<noteq> Some SyntaxError \<Longrightarrow> \<forall>m\<in>set ms. raw_ok (fst m) \<and> json_ok (snd m) \<Longrightarrow>
   fst (decode_members saved c ms) \<noteq> Some SyntaxError"
proof (induction saved c ms rule: decode_members.induct)
  case (1 saved c)
  then show ?case by simp
next
  case (2 saved c k v ms)
  obtain key where key: "go_unquote k = Some key" using raw_ok_go_unquote "2.prems"(2) by auto
  have sv: "fst (store_string cur v) \<noteq> Some SyntaxError" for cur
    using store_string_ok "2.prems"(2) by simp
  show ?case
  proof (cases "cert_field_of key")
    case None
    then show ?thesis using "2.IH"(2) [OF key None] "2.prems" key by simp
  next
    case (Some f)
    then show ?thesis
    proof (cases f)
      case CommonNameField
      obtain e x where ex: "store_string (CommonName c) v = (e, x)" by fastforce
      have "save_error saved e \<noteq> Some SyntaxError"
        using save_error_not_syntax [OF "2.prems"(1)] sv [of "CommonName c"] ex by simp
      then show ?thesis using "2.IH"(3) [OF key Some CommonNameField ex [symmetric] refl] "2.prems"(2) key Some CommonNameField ex
        by simp
    next
      case NameValueField
      obtain e x where ex: "store_string (NameValue c) v = (e, x)" by fastforce
      have "save_error saved e \<noteq> Some SyntaxError"
        using save_error_not_syntax [OF "2.prems"(1)] sv [of "NameValue c"] ex by simp
      then show ?thesis using "2.IH"(4) [OF key Some NameValueField ex [symmetric] refl] "2.prems"(2) key Some NameValueField ex
        by simp
    qed
  qed
qed


lemma decode_certificate_ok:
  "saved \<noteq> Some SyntaxError \<Longrightarrow> json_ok v \<Longrightarrow> fst (decode_certificate saved v) \<noteq> Some SyntaxError"
  by (cases v) (auto simp: decode_certificate_def save_error_not_syntax decode_members_ok)

lemma decode_elements_ok:
  "saved \<noteq> Some SyntaxError \<Longrightarrow> \<forall>v\<in>set vs. json_ok v \<Longrightarrow>
   fst (decode_elements saved vs) \<noteq> Some SyntaxError"
proof (induction vs arbitrary: saved)
  case Nil
  then show ?case by simp
next
  case (Cons v vs)
  obtain e c where ec: "decode_certificate saved v = (e, c)" by fastforce
  have "e \<noteq> Some SyntaxError" using decode_certificate_ok [of saved v] Cons.prems ec by simp
  then have "fst (decode_elements e vs) \<noteq> Some SyntaxError" using Cons.IH Cons.prems(2) by simp
  then show ?case using ec by (simp add: case_prod_beta)
qed

lemma decode_certificates_ok: "json_ok v \<Longrightarrow> fst (decode_certificates v) \<noteq> Some SyntaxError"
  by (cases v) (simp_all add: decode_certificates_def decode_elements_ok)

lemma json_checkValid_ok: "json_checkValid data = Some v \<Longrightarrow> json_ok v"
  by (auto simp: json_checkValid_def split: scan.splits if_splits dest: json_value_ok)

subsection \<open>Properties of \<open>json.Unmarshal\<close>\<close>



text \<open>
  C32: \<open>Unmarshal\<close> reports a \<open>SyntaxError\<close> exactly when \<open>checkValid\<close> rejects the
  input: on a value the scanner accepted, unquoting a string or key never fails, so the
  decoder's \<open>panic(phasePanicMsg)\<close> is unreachable.
\<close>

theorem json_Unmarshal_SyntaxError:
  "json_Unmarshal data = Inl SyntaxError \<longleftrightarrow> json_checkValid data = None"
proof (cases "json_checkValid data")
  case None
  then show ?thesis by (simp add: json_Unmarshal_def)
next
  case (Some v)
  then have "fst (decode_certificates v) \<noteq> Some SyntaxError"
    by (intro decode_certificates_ok json_checkValid_ok)
  then show ?thesis using Some
    by (auto simp: json_Unmarshal_def split: prod.splits option.splits)
qed


text \<open>
  C33: the fast path of \<open>unquoteBytes\<close>, which returns the input itself when it holds no
  escape, quote, control byte or invalid UTF-8, agrees with the decoding loop on every input.
\<close>

theorem go_unquote_fast_path: "go_unquote s = unquote_loop s"
  using unquote_plain_split [of s] by (simp add: go_unquote_def Let_def)

end
