(* ===== verification/Crt_Response.thy ===== *)
theory Crt_Response
  imports Go_Json
begin

text \<open>
  The response the program expects from crt.sh (specification, section 6): a JSON array of
  objects with the string members \<open>common_name\<close> and \<open>name_value\<close>. The service is
  not part of the repository; its encoding of a certificate list is modelled here from
  the specification so that the decoder of \<open>Go_Json\<close> can be run on it.
\<close>

text \<open>The names the service sends: ASCII text, with newlines between the names of a \<open>name_value\<close>.\<close>

definition json_text_ok :: "go_string \<Rightarrow> bool" where
  "json_text_ok s \<longleftrightarrow> (\<forall>c\<in>set s. (of_char c :: nat) < 0x80 \<and> (0x20 \<le> (of_char c :: nat) \<or> c = CHR 0x0A))"

definition certs_text_ok :: "Certificate list \<Rightarrow> bool" where
  "certs_text_ok cs \<longleftrightarrow> (\<forall>c\<in>set cs. json_text_ok (CommonName c) \<and> json_text_ok (NameValue c))"

text \<open>A string's content in a JSON literal: quote, backslash and newline escaped.\<close>

fun json_escape :: "go_string \<Rightarrow> go_string" where
  "json_escape [] = []"
| "json_escape (c # s) =
     (if c = CHR 0x22 \<or> c = CHR 0x5C then [CHR 0x5C, c]
      else if c = CHR 0x0A then [CHR 0x5C, CHR ''n''] else [c]) @ json_escape s"

definition json_quote :: "go_string \<Rightarrow> go_string" where
  "json_quote s = CHR 0x22 # json_escape s @ [CHR 0x22]"

definition encode_certificate :: "Certificate \<Rightarrow> go_string" where
  "encode_certificate c =
     ''{'' @ json_quote ''common_name'' @ '':'' @ json_quote (CommonName c) @ '','' @
     json_quote ''name_value'' @ '':'' @ json_quote (NameValue c) @ ''}''"

definition encode_certificates :: "Certificate list \<Rightarrow> go_string" where
  "encode_certificates cs = ''['' @ go_Join (map encode_certificate cs) (CHR '','') @ '']''"

text \<open>The value the scanner reads from one encoded certificate.\<close>

definition certificate_json :: "Certificate \<Rightarrow> json" where
  "certificate_json c =
     JObject [(''common_name'', JString (json_escape (CommonName c))),
              (''name_value'', JString (json_escape (NameValue c)))]"

subsection \<open>The scanner and the decoder on the encoding\<close>

lemma scan_string_escape:
  "json_text_ok s \<Longrightarrow> scan_string (json_escape s @ CHR 0x22 # rest) = Some (json_escape s, rest)"
  by (induction s) (auto simp: json_text_ok_def)

lemma unquote_loop_escape: "json_text_ok s \<Longrightarrow> unquote_loop (json_escape s) = Some s"
  by (induction s) (auto simp: json_text_ok_def RuneSelf_def)

lemma skip_space_quote [simp]: "skip_space (CHR 0x22 # s) = CHR 0x22 # s"
  by (simp add: skip_space_def json_isSpace_def)

lemma json_value_certificate:
  assumes "json_text_ok (CommonName c)" "json_text_ok (NameValue c)" "d < maxNestingDepth"
  shows "json_value (Suc (Suc (Suc (Suc n)))) d (encode_certificate c @ rest) = Scanned (certificate_json c, rest)"
  using assms
  by (simp add: encode_certificate_def certificate_json_def json_quote_def scan_string_escape
      skip_space_def json_isSpace_def Let_def)


lemma encode_certificate_Cons: "\<exists>s. encode_certificate c = CHR ''{'' # s"
  by (simp add: encode_certificate_def)

lemma skip_space_brace: "skip_space (encode_certificate c @ rest) = encode_certificate c @ rest"
  using encode_certificate_Cons [of c] by (auto simp: skip_space_def json_isSpace_def)

lemma go_Join_Cons_append:
  "go_Join (w # ws) sep @ t = w @ (if ws = [] then t else sep # go_Join ws sep @ t)"
  by (cases ws) simp_all

lemma json_elements_certificates:
  assumes "cs \<noteq> []" "certs_text_ok cs" "5 * length cs \<le> n"
  shows "json_elements n 1 (go_Join (map encode_certificate cs) (CHR '','') @ CHR '']'' # rest) =
         Scanned (map certificate_json cs, rest)"
  using assms
proof (induction cs arbitrary: n)
  case Nil
  then show ?case by simp
next
  case (Cons c cs)
  obtain m where n: "n = Suc m" and m: "4 + 5 * length cs \<le> m" using Cons.prems(3) by (cases n) auto
  have m4: "m = Suc (Suc (Suc (Suc (m - 4))))" using m by simp
  have ok: "json_text_ok (CommonName c)" "json_text_ok (NameValue c)"
    using Cons.prems(2) by (simp_all add: certs_text_ok_def)
  have d: "(1::nat) < maxNestingDepth" by (simp add: maxNestingDepth_def)
  show ?case
  proof (cases cs)
    case Nil
    have "json_value m 1 (encode_certificate c @ CHR '']'' # rest) = Scanned (certificate_json c, CHR '']'' # rest)"
      using json_value_certificate [OF ok d, of "m - 4" "CHR '']'' # rest"] m4 by simp
    then show ?thesis using Nil n by (simp add: skip_space_def json_isSpace_def)
  next
    case (Cons c' cs')
    let ?tail = "go_Join (map encode_certificate cs) (CHR '','') @ CHR '']'' # rest"
    have ih: "json_elements m 1 ?tail = Scanned (map certificate_json cs, rest)"
      using Cons.IH [of m] Cons.prems(2) m Cons by (simp add: certs_text_ok_def)
    have v: "json_value m 1 (encode_certificate c @ CHR '','' # ?tail) = Scanned (certificate_json c, CHR '','' # ?tail)"
      using json_value_certificate [OF ok d, of "m - 4" "CHR '','' # ?tail"] m4 by simp
    have sk: "skip_space ?tail = ?tail"
      using skip_space_brace [of c'] Cons by (simp add: go_Join_Cons_append)
    show ?thesis using v ih sk n Cons by (simp add: skip_space_def json_isSpace_def go_Join_Cons_append)
  qed
qed


lemma json_checkValid_encode:
  assumes "certs_text_ok cs"
  shows "json_checkValid (encode_certificates cs) = Some (JArray (map certificate_json cs))"
proof (cases "cs = []")
  case True
  then show ?thesis
    by (simp add: json_checkValid_def encode_certificates_def json_fuel_def skip_space_def json_isSpace_def
        eval_nat_numeral maxNestingDepth_def)
next
  case False
  let ?n = "Suc (5 * length cs)"
  have e: "json_elements (5 * length cs) 1 (go_Join (map encode_certificate cs) (CHR '','') @ CHR '']'' # []) =
           Scanned (map certificate_json cs, [])"
    using json_elements_certificates [OF False assms, of "5 * length cs" "[]"] by simp
  have sk: "skip_space (go_Join (map encode_certificate cs) (CHR '','') @ [CHR '']'']) =
            go_Join (map encode_certificate cs) (CHR '','') @ [CHR '']'']"
    using False skip_space_brace [of "hd cs"] by (cases cs) (simp_all add: go_Join_Cons_append)
  have "json_value ?n 0 (skip_space (encode_certificates cs)) = Scanned (JArray (map certificate_json cs), [])"
  proof -
    have hd: "go_Join (map encode_certificate cs) (CHR '','') @ [CHR '']''] \<noteq> [] \<and>
              hd (go_Join (map encode_certificate cs) (CHR '','') @ [CHR '']'']) \<noteq> CHR '']''"
      using False encode_certificate_Cons [of "hd cs"] by (cases cs) (auto simp: go_Join_Cons_append)
    show ?thesis using e sk hd
      by (simp add: encode_certificates_def skip_space_def json_isSpace_def maxNestingDepth_def Let_def)
  qed
  then show ?thesis by (rule json_checkValid_Scanned) (simp add: skip_space_def)
qed


lemma go_unquote_escape: "json_text_ok s \<Longrightarrow> go_unquote (json_escape s) = Some s"
  by (rule go_unquote_Some) (rule unquote_loop_escape)

lemma decode_certificate_json:
  assumes "json_text_ok (CommonName c)" "json_text_ok (NameValue c)"
  shows "decode_certificate None (certificate_json c) = (None, c)"
proof -
  have k1: "go_unquote ''common_name'' = Some ''common_name''"
    by (simp add: go_unquote_def RuneSelf_def)
  have k2: "go_unquote ''name_value'' = Some ''name_value''"
    by (simp add: go_unquote_def RuneSelf_def)
  show ?thesis
    using assms
    by (simp add: decode_certificate_def certificate_json_def k1 k2 cert_field_of_def store_string_def
        go_unquote_escape save_error_def zero_certificate_def)
qed


lemma decode_elements_json:
  "certs_text_ok cs \<Longrightarrow> decode_elements None (map certificate_json cs) = (None, cs)"
  by (induction cs) (simp_all add: certs_text_ok_def decode_certificate_json)

lemma decode_certificates_encode:
  "certs_text_ok cs \<Longrightarrow> decode_certificates (JArray (map certificate_json cs)) = (None, cs)"
  by (simp add: decode_certificates_def decode_elements_json)

lemma json_unmarshal_world_encode:
  "certs_text_ok cs \<Longrightarrow> json_unmarshal_world (encode_certificates cs) = Inr cs"
  by (simp add: json_unmarshal_world_def json_Unmarshal_def json_checkValid_encode decode_certificates_encode)

subsection \<open>Decoding what the service sends\<close>

text \<open>
  C34: a certificate list the service encodes, with ASCII names and newlines between the
  names of a \<open>name_value\<close>, is decoded by \<open>json.Unmarshal\<close> into the same list.
\<close>

theorem json_Unmarshal_roundtrip:
  "certs_text_ok cs \<Longrightarrow> json_Unmarshal (encode_certificates cs) = Inr cs"
  by (simp add: json_Unmarshal_def json_checkValid_encode decode_certificates_encode)

theorem json_Unmarshal_roundtrip_witness:
  "certs_text_ok [\<lparr>CommonName = ''a.com'', NameValue = ''a.com\<newline>B.a.com''\<rparr>] \<and>
   json_Unmarshal (''[{\"common_name\":\"a.com\",\"name_value\":\"a.com'' @ [CHR 0x5C] @ ''nB.a.com\"}]'') =
   Inr [\<lparr>CommonName = ''a.com'', NameValue = ''a.com\<newline>B.a.com''\<rparr>]"
proof -
  let ?cs = "[\<lparr>CommonName = ''a.com'', NameValue = ''a.com\<newline>B.a.com''\<rparr>]"
  have ok: "certs_text_ok ?cs" by (simp add: certs_text_ok_def json_text_ok_def)
  have "encode_certificates ?cs = ''[{\"common_name\":\"a.com\",\"name_value\":\"a.com'' @ [CHR 0x5C] @ ''nB.a.com\"}]''"
    by (simp add: encode_certificates_def encode_certificate_def json_quote_def)
  then show ?thesis using json_Unmarshal_roundtrip [OF ok] ok by simp
qed

end
