(* ===== verification/Go_Flag.thy ===== *)
theory Go_Flag
  imports Recon_Main
begin

text \<open>
  The command line (lines 20--23): \<open>flag.String\<close> defines the string flags \<open>d\<close>,
  \<open>org\<close> and \<open>o\<close> with the default \<open>""\<close>, and \<open>flag.Parse()\<close> reads
  \<open>os.Args[1:]\<close> with Go's package \<open>flag\<close> (\<open>FlagSet.Parse\<close>, \<open>parseOne\<close>) under
  \<open>ExitOnError\<close>: a flag is \<open>-name\<close> or \<open>--name\<close>, its value follows \<open>=\<close> or is the
  next argument; parsing stops at \<open>--\<close> or at the first argument that is not a flag;
  \<open>-h\<close> and \<open>-help\<close> print the usage and exit with 0, any other error prints it and
  exits with 2.
\<close>

datatype flag_error = BadSyntax go_string | NotDefined go_string | NeedsArgument go_string | ErrHelp

text \<open>The values of the three flags before parsing: their defaults.\<close>

definition default_flags :: flags where
  "default_flags = \<lparr>domainArg = [], orgArg = [], outputFile = []\<rparr>"

text \<open>\<open>f.formal[name]\<close>: the flags the program defined.\<close>

definition flag_defined :: "go_string \<Rightarrow> bool" where
  "flag_defined name \<longleftrightarrow> name = ''d'' \<or> name = ''org'' \<or> name = ''o''"

text \<open>\<open>flag.Value.Set(value)\<close> of a \<open>stringValue\<close>: stores the value, never fails.\<close>

definition flag_set :: "go_string \<Rightarrow> go_string \<Rightarrow> flags \<Rightarrow> flags" where
  "flag_set name value fl =
     (if name = ''d'' then fl\<lparr>domainArg := value\<rparr>
      else if name = ''org'' then fl\<lparr>orgArg := value\<rparr>
      else fl\<lparr>outputFile := value\<rparr>)"

text \<open>
  \<open>parseOne\<close>: \<open>Inr (seen, values, rest)\<close>, or the error it returns. The name is cut at
  its first \<open>=\<close>, which is never its first byte.
\<close>

definition parseOne :: "flags \<Rightarrow> go_string list \<Rightarrow> flag_error + bool \<times> flags \<times> go_string list" where
  "parseOne fl args =
     (case args of
        [] \<Rightarrow> Inr (False, fl, [])
      | s # args' \<Rightarrow>
          if length s < 2 \<or> s ! 0 \<noteq> CHR ''-'' then Inr (False, fl, args)
          else if s ! 1 = CHR ''-'' \<and> length s = 2 then Inr (False, fl, args')
          else
            (let numMinuses = (if s ! 1 = CHR ''-'' then 2 else 1);
                 name = drop numMinuses s in
             if name = [] \<or> name ! 0 = CHR ''-'' \<or> name ! 0 = CHR ''='' then Inl (BadSyntax s)
             else
               (let hasValue = CHR ''='' \<in> set name;
                    value = tl (dropWhile (\<lambda>c. c \<noteq> CHR ''='') name);
                    name = takeWhile (\<lambda>c. c \<noteq> CHR ''='') name in
                if \<not> flag_defined name then
                  (if name = ''help'' \<or> name = ''h'' then Inl ErrHelp else Inl (NotDefined name))
                else if hasValue then Inr (True, flag_set name value fl, args')
                else (case args' of
                        [] \<Rightarrow> Inl (NeedsArgument name)
                      | v # args'' \<Rightarrow> Inr (True, flag_set name v fl, args'')))))"

text \<open>The loop of \<open>FlagSet.Parse\<close>: \<open>parseOne\<close> until it sees no flag or fails.\<close>

function parse_loop :: "flags \<Rightarrow> go_string list \<Rightarrow> flag_error + flags \<times> go_string list" where
  "parse_loop fl args =
     (case parseOne fl args of
        Inl e \<Rightarrow> Inl e
      | Inr (seen, fl', args') \<Rightarrow> if seen then parse_loop fl' args' else Inr (fl', args'))"
  by pat_completeness auto
termination
  by (relation "measure (\<lambda>(fl, args). length args)")
     (auto simp: parseOne_def Let_def split: list.splits if_splits)

declare parse_loop.simps [simp del]

text \<open>\<open>flag.Parse()\<close> on \<open>os.Args[1:]\<close>: the values and the arguments left.\<close>

definition flag_Parse :: "go_string list \<Rightarrow> flag_error + flags \<times> go_string list" where
  "flag_Parse args = parse_loop default_flags args"

text \<open>
  A run of the program from its arguments: \<open>flag.Parse\<close> exits the process on an error,
  else \<open>main\<close> goes on with the values.
\<close>

datatype cli_run = FlagExit flag_error | Run "effect list"

definition cli_main :: "go_string list \<Rightarrow> world \<Rightarrow> cli_run" where
  "cli_main args w = (case flag_Parse args of Inl e \<Rightarrow> FlagExit e | Inr (fl, _) \<Rightarrow> Run (main fl w))"

text \<open>\<open>os.Exit(0)\<close> for \<open>ErrHelp\<close>, \<open>os.Exit(2)\<close> for the other errors.\<close>

fun cli_exit_status :: "cli_run \<Rightarrow> nat" where
  "cli_exit_status (FlagExit ErrHelp) = 0"
| "cli_exit_status (FlagExit _) = 2"
| "cli_exit_status (Run es) = exit_status es"

lemma parse_loop_step:
  "parseOne fl args = Inr (True, fl', args') \<Longrightarrow> parse_loop fl args = parse_loop fl' args'"
  by (simp add: parse_loop.simps)

lemma parse_loop_stop:
  "parseOne fl args = Inr (False, fl', args') \<Longrightarrow> parse_loop fl args = Inr (fl', args')"
  by (simp add: parse_loop.simps)

lemma parse_loop_error: "parseOne fl args = Inl e \<Longrightarrow> parse_loop fl args = Inl e"
  by (simp add: parse_loop.simps)


lemma parseOne_TrueD:
  assumes "parseOne fl args = Inr (True, fl', args')"
  obtains s rest where "args = s # rest" "\<not> (length s < 2 \<or> s ! 0 \<noteq> CHR ''-'')"
    "\<not> (s ! 1 = CHR ''-'' \<and> length s = 2)"
    "let name = drop (if s ! 1 = CHR ''-'' then 2 else 1) s in
       \<not> (name = [] \<or> name ! 0 = CHR ''-'' \<or> name ! 0 = CHR ''='') \<and>
       flag_defined (takeWhile (\<lambda>c. c \<noteq> CHR ''='') name) \<and>
       (CHR ''='' \<in> set name \<and> args' = rest \<and>
          fl' = flag_set (takeWhile (\<lambda>c. c \<noteq> CHR ''='') name) (tl (dropWhile (\<lambda>c. c \<noteq> CHR ''='') name)) fl \<or>
        CHR ''='' \<notin> set name \<and>
          (\<exists>v. rest = v # args' \<and> fl' = flag_set (takeWhile (\<lambda>c. c \<noteq> CHR ''='') name) v fl))"
  using assms by (auto simp: parseOne_def Let_def split: list.splits if_splits intro: that)

lemma parseOne_seen_append:
  assumes "parseOne fl args = Inr (True, fl', args')"
  shows "parseOne fl (args @ tail) = Inr (True, fl', args' @ tail)"
  using assms by (rule parseOne_TrueD) (auto simp: parseOne_def Let_def)

lemma parseOne_rest_suffix:
  "parseOne fl args = Inr (seen, fl', args') \<Longrightarrow> suffix args' args"
  by (auto simp: parseOne_def Let_def suffix_def split: list.splits if_splits)

lemma two_dashes: "length s = 2 \<Longrightarrow> s ! 0 = CHR ''-'' \<Longrightarrow> s ! 1 = CHR ''-'' \<Longrightarrow> s = ''--''"
  by (cases s; cases "tl s") auto

lemma parseOne_stop_Nil:
  "parseOne fl args = Inr (False, fl', []) \<Longrightarrow> CHR ''-'' # CHR ''-'' # [] \<notin> set args \<Longrightarrow> args = [] \<and> fl' = fl"
  by (auto simp: parseOne_def Let_def split: list.splits if_splits dest: two_dashes)

lemma parse_loop_last_d:
  "parse_loop fl0 args = Inr (fl, []) \<Longrightarrow> ''--'' \<notin> set args \<Longrightarrow>
   parse_loop fl0 (args @ [''-d'', v]) = Inr (fl\<lparr>domainArg := v\<rparr>, [])"
proof (induction fl0 args rule: parse_loop.induct)
  case (1 fl0 args)
  show ?case
  proof (cases "parseOne fl0 args")
    case (Inl e)
    then show ?thesis using "1.prems"(1) by (simp add: parse_loop_error)
  next
    case (Inr r)
    obtain seen fl' args' where r: "r = (seen, fl', args')" by (cases r) auto
    show ?thesis
    proof (cases seen)
      case True
      have p: "parseOne fl0 args = Inr (True, fl', args')" using Inr r True by simp
      have "''--'' \<notin> set args'" using parseOne_rest_suffix [OF p] "1.prems"(2) by (auto simp: suffix_def)
      moreover have "parse_loop fl' args' = Inr (fl, [])" using "1.prems"(1) parse_loop_step [OF p] by simp
      ultimately show ?thesis
        using "1.IH" [OF Inr r [symmetric] refl True] parse_loop_step [OF parseOne_seen_append [OF p]] by simp
    next
      case False
      have p: "parseOne fl0 args = Inr (False, fl', args')" using Inr r False by simp
      then have "args' = []" "fl' = fl" using "1.prems"(1) parse_loop_stop [OF p] by simp_all
      then have "args = []" "fl = fl0" using parseOne_stop_Nil p "1.prems"(2) by auto
      then show ?thesis by (simp add: parse_loop.simps parseOne_def flag_defined_def flag_set_def)
    qed
  qed
qed


subsection \<open>Properties of the command line\<close>

text \<open>
  C38: \<open>flag.Parse\<close> reads back the three values from either way of writing them on
  the command line, \<open>-d=value\<close> or \<open>-d value\<close>, whatever the values are (empty, or
  starting with a dash), and leaves no argument over.
\<close>

theorem flag_Parse_roundtrip:
  "flag_Parse [''-d='' @ domainArg fl, ''-org='' @ orgArg fl, ''-o='' @ outputFile fl] = Inr (fl, []) \<and>
   flag_Parse [''-d'', domainArg fl, ''-org'', orgArg fl, ''-o'', outputFile fl] = Inr (fl, [])"
  by (simp add: flag_Parse_def parse_loop.simps parseOne_def flag_defined_def flag_set_def default_flags_def)

text \<open>
  C39: a flag given again overrides its earlier value: appending \<open>-d value\<close> to a
  command line that parses completely (and holds no \<open>--\<close>, which would end the flags)
  changes only the domain, to the new value.
\<close>

theorem flag_last_wins:
  "flag_Parse args = Inr (fl, []) \<Longrightarrow> ''--'' \<notin> set args \<Longrightarrow>
   flag_Parse (args @ [''-d'', v]) = Inr (fl\<lparr>domainArg := v\<rparr>, [])"
  unfolding flag_Parse_def by (rule parse_loop_last_d)

theorem flag_last_wins_witness:
  "flag_Parse [''-d'', ''a.com'', ''-o'', ''out''] = Inr (\<lparr>domainArg = ''a.com'', orgArg = [], outputFile = ''out''\<rparr>, []) \<and>
   flag_Parse ([''-d'', ''a.com'', ''-o'', ''out''] @ [''-d'', ''b.com'']) =
     Inr (\<lparr>domainArg = ''b.com'', orgArg = [], outputFile = ''out''\<rparr>, [])"
proof -
  have p: "flag_Parse [''-d'', ''a.com'', ''-o'', ''out''] = Inr (\<lparr>domainArg = ''a.com'', orgArg = [], outputFile = ''out''\<rparr>, [])"
    by (simp add: flag_Parse_def parse_loop.simps parseOne_def flag_defined_def flag_set_def default_flags_def)
  show ?thesis using flag_last_wins [OF p] p by simp
qed

text \<open>
  C40: the check of line 33 tests the values, not whether the flags were given: with
  \<open>-d=\<close> (an empty domain) and \<open>-org\<close> set, the program does not stop with the usage
  error the specification requires for two query flags, but sends the organization
  query.
\<close>

theorem cli_empty_domain_flag:
  assumes "org \<noteq> []"
  shows "cli_main [''-d='', ''-org'', org] w = Run (main \<lparr>domainArg = [], orgArg = org, outputFile = []\<rparr> w) \<and>
         hd (main \<lparr>domainArg = [], orgArg = org, outputFile = []\<rparr> w) = HttpGet (crt_query_url org)"
  using assms
  by (simp add: cli_main_def flag_Parse_def parse_loop.simps parseOne_def flag_defined_def flag_set_def
      default_flags_def main_def select_query_def Let_def)

theorem cli_empty_domain_flag_witness:
  "cli_main [''-d='', ''-org'', ''Acme'']
     \<lparr>http_get = (\<lambda>u. Inl ()), unmarshal = (\<lambda>b. Inl ()), range_keys = (\<lambda>m. []),
      write_file = (\<lambda>p d m. True)\<rparr> =
   Run [HttpGet (crt_query_url ''Acme''), LogFatal GetFailed]"
  using cli_empty_domain_flag [of "''Acme''" "\<lparr>http_get = (\<lambda>u. Inl ()), unmarshal = (\<lambda>b. Inl ()),
      range_keys = (\<lambda>m. []), write_file = (\<lambda>p d m. True)\<rparr>"]
  by (simp add: main_def select_query_def Let_def)

end
