(* ===== verification/Recon_Steps.thy ===== *)
theory Recon_Steps
  imports Recon_Main
begin

text \<open>
  \<open>main\<close> statement by statement: a small-step machine whose configurations are the
  program point reached in \<open>main\<close> and the effects performed so far. Each rule is one
  statement of lines 25--89 with its guard; \<open>Exit n\<close> is the end of the process with
  status \<open>n\<close>, by \<open>log.Fatal\<close> (1), by the usage branch's \<open>return\<close> (0), or by the
  return of \<open>main\<close> after the deferred \<open>resp.Body.Close()\<close> (0). The lemmas relate
  the machine to the function \<open>main\<close> of \<open>Recon_Main\<close> and show that every run ends.
\<close>

datatype main_pc =
    Flags
  | Get go_string
  | Read http_response
  | Decode go_string
  | Collect "Certificate list"
  | Print go_string
  | Write go_string
  | Return
  | Exit nat

record main_conf =
  mpc :: main_pc
  done_effects :: "effect list"

definition main_init :: main_conf where
  "main_init = \<lparr>mpc = Flags, done_effects = []\<rparr>"

inductive main_step :: "flags \<Rightarrow> world \<Rightarrow> main_conf \<Rightarrow> main_conf \<Rightarrow> bool" for f w where
  usage: "domainArg f = [] \<Longrightarrow> orgArg f = [] \<Longrightarrow>
    main_step f w \<lparr>mpc = Flags, done_effects = es\<rparr>
      \<lparr>mpc = Exit 0, done_effects = es @ [Stdout ''Usage:\<newline>'', PrintDefaults]\<rparr>"
| both: "domainArg f \<noteq> [] \<Longrightarrow> orgArg f \<noteq> [] \<Longrightarrow>
    main_step f w \<lparr>mpc = Flags, done_effects = es\<rparr>
      \<lparr>mpc = Exit 1, done_effects = es @ [LogFatal BothQueries]\<rparr>"
| query: "\<not> (domainArg f = [] \<and> orgArg f = []) \<Longrightarrow> \<not> (domainArg f \<noteq> [] \<and> orgArg f \<noteq> []) \<Longrightarrow>
    main_step f w \<lparr>mpc = Flags, done_effects = es\<rparr>
      \<lparr>mpc = Get (crt_query_url (select_query f)), done_effects = es\<rparr>"
| get_fail: "http_get w url = Inl e \<Longrightarrow>
    main_step f w \<lparr>mpc = Get url, done_effects = es\<rparr>
      \<lparr>mpc = Exit 1, done_effects = es @ [HttpGet url, LogFatal GetFailed]\<rparr>"
| get_ok: "http_get w url = Inr resp \<Longrightarrow>
    main_step f w \<lparr>mpc = Get url, done_effects = es\<rparr>
      \<lparr>mpc = Read resp, done_effects = es @ [HttpGet url]\<rparr>"
| read_fail: "Body resp = Inl e \<Longrightarrow>
    main_step f w \<lparr>mpc = Read resp, done_effects = es\<rparr>
      \<lparr>mpc = Exit 1, done_effects = es @ [LogFatal ReadFailed]\<rparr>"
| read_ok: "Body resp = Inr body \<Longrightarrow>
    main_step f w \<lparr>mpc = Read resp, done_effects = es\<rparr> \<lparr>mpc = Decode body, done_effects = es\<rparr>"
| decode_fail: "unmarshal w body = Inl e \<Longrightarrow>
    main_step f w \<lparr>mpc = Decode body, done_effects = es\<rparr>
      \<lparr>mpc = Exit 1, done_effects = es @ [LogFatal ParseFailed]\<rparr>"
| decode_ok: "unmarshal w body = Inr certs \<Longrightarrow>
    main_step f w \<lparr>mpc = Decode body, done_effects = es\<rparr> \<lparr>mpc = Collect certs, done_effects = es\<rparr>"
| collect: "main_step f w \<lparr>mpc = Collect certs, done_effects = es\<rparr>
    \<lparr>mpc = Print (build_output (range_keys w (build_domain_set (domainArg f) certs)) []),
     done_effects = es\<rparr>"
| print: "main_step f w \<lparr>mpc = Print out, done_effects = es\<rparr>
    \<lparr>mpc = Write out, done_effects = es @ [Stdout out]\<rparr>"
| no_file: "outputFile f = [] \<Longrightarrow>
    main_step f w \<lparr>mpc = Write out, done_effects = es\<rparr> \<lparr>mpc = Return, done_effects = es\<rparr>"
| write_ok: "outputFile f \<noteq> [] \<Longrightarrow> write_file w (outputFile f) out file_mode_0644 \<Longrightarrow>
    main_step f w \<lparr>mpc = Write out, done_effects = es\<rparr>
      \<lparr>mpc = Return, done_effects = es @ [WriteFile (outputFile f) out file_mode_0644]\<rparr>"
| write_fail: "outputFile f \<noteq> [] \<Longrightarrow> \<not> write_file w (outputFile f) out file_mode_0644 \<Longrightarrow>
    main_step f w \<lparr>mpc = Write out, done_effects = es\<rparr>
      \<lparr>mpc = Exit 1, done_effects = es @ [WriteFile (outputFile f) out file_mode_0644, LogFatal WriteFailed]\<rparr>"
| return: "main_step f w \<lparr>mpc = Return, done_effects = es\<rparr>
    \<lparr>mpc = Exit 0, done_effects = es @ [CloseBody]\<rparr>"

text \<open>How far a program point is from the end of \<open>main\<close>: every statement moves forward.\<close>

fun pc_rank :: "main_pc \<Rightarrow> nat" where
  "pc_rank Flags = 9"
| "pc_rank (Get _) = 8"
| "pc_rank (Read _) = 7"
| "pc_rank (Decode _) = 6"
| "pc_rank (Collect _) = 5"
| "pc_rank (Print _) = 4"
| "pc_rank (Write _) = 3"
| "pc_rank Return = 2"
| "pc_rank (Exit _) = 0"

text \<open>
  What \<open>main\<close> still does from a program point: the effects of the rest of its body.
  A configuration stands for its effects so far followed by these; \<open>main\<close> itself is
  what remains at the start.
\<close>

function rest_effects :: "flags \<Rightarrow> world \<Rightarrow> main_pc \<Rightarrow> effect list" where
  "rest_effects f w Flags = main f w"
| "rest_effects f w (Get url) =
     HttpGet url # (case http_get w url of Inl _ \<Rightarrow> [LogFatal GetFailed] | Inr resp \<Rightarrow> rest_effects f w (Read resp))"
| "rest_effects f w (Read resp) =
     (case Body resp of Inl _ \<Rightarrow> [LogFatal ReadFailed] | Inr body \<Rightarrow> rest_effects f w (Decode body))"
| "rest_effects f w (Decode body) =
     (case unmarshal w body of Inl _ \<Rightarrow> [LogFatal ParseFailed] | Inr certs \<Rightarrow> rest_effects f w (Collect certs))"
| "rest_effects f w (Collect certs) =
     rest_effects f w (Print (build_output (range_keys w (build_domain_set (domainArg f) certs)) []))"
| "rest_effects f w (Print out) = Stdout out # rest_effects f w (Write out)"
| "rest_effects f w (Write out) =
     (let es = write_results f w out in if list_ex is_fatal es then es else es @ [CloseBody])"
| "rest_effects f w Return = [CloseBody]"
| "rest_effects f w (Exit n) = []"
  by pat_completeness auto
termination
  by (relation "measure (\<lambda>(f, w, p). pc_rank p)") simp_all

text \<open>
  The exit status agrees with the effects: at \<open>Exit n\<close>, \<open>n\<close> is the status the effects
  give; before it, no \<open>log.Fatal\<close> has run.
\<close>

definition status_ok :: "main_conf \<Rightarrow> bool" where
  "status_ok c =
     (case mpc c of Exit n \<Rightarrow> n = exit_status (done_effects c) | _ \<Rightarrow> \<not> list_ex is_fatal (done_effects c))"

inductive_cases main_step_ExitE [elim!]: "main_step f w \<lparr>mpc = Exit n, done_effects = es\<rparr> c'"

lemma main_step_rank: "main_step f w c c' \<Longrightarrow> pc_rank (mpc c') < pc_rank (mpc c)"
  by (induction rule: main_step.induct) simp_all

lemma main_step_deterministic: "main_step f w c c' \<Longrightarrow> main_step f w c c'' \<Longrightarrow> c'' = c'"
  by (induction rule: main_step.induct) (auto elim: main_step.cases)

lemma main_step_rest: "main_step f w c c' \<Longrightarrow>
    done_effects c @ rest_effects f w (mpc c) = done_effects c' @ rest_effects f w (mpc c')"
  by (induction rule: main_step.induct) (auto simp: main_unfold split: sum.split)

lemma main_step_status: "main_step f w c c' \<Longrightarrow> status_ok c \<Longrightarrow> status_ok c'"
  by (induction rule: main_step.induct) (auto simp: status_ok_def exit_status_def)

lemma main_steps_rest: "(main_step f w)\<^sup>*\<^sup>* c c' \<Longrightarrow>
    done_effects c @ rest_effects f w (mpc c) = done_effects c' @ rest_effects f w (mpc c')"
  by (induction rule: rtranclp_induct) (simp_all add: main_step_rest)

lemma main_steps_status: "(main_step f w)\<^sup>*\<^sup>* c c' \<Longrightarrow> status_ok c \<Longrightarrow> status_ok c'"
  by (induction rule: rtranclp_induct) (simp_all add: main_step_status)

lemma main_step_progress:
  assumes "\<forall>n. mpc c \<noteq> Exit n"
  obtains c' where "main_step f w c c'"
proof -
  obtain p es where c: "c = \<lparr>mpc = p, done_effects = es\<rparr>" by (cases c) simp
  have "\<exists>c'. main_step f w \<lparr>mpc = p, done_effects = es\<rparr> c'"
  proof (cases p)
    case Flags
    then show ?thesis by (cases "domainArg f = []"; cases "orgArg f = []") (auto intro: main_step.intros)
  next
    case (Get url)
    then show ?thesis by (cases "http_get w url") (auto intro: main_step.intros)
  next
    case (Read resp)
    then show ?thesis by (cases "Body resp") (auto intro: main_step.intros)
  next
    case (Decode body)
    then show ?thesis by (cases "unmarshal w body") (auto intro: main_step.intros)
  next
    case (Write out)
    then show ?thesis
      by (cases "outputFile f = []"; cases "write_file w (outputFile f) out file_mode_0644")
        (auto intro: main_step.intros)
  qed (use assms c in \<open>auto intro: main_step.intros\<close>)
  then show ?thesis using c that by blast
qed

lemma main_reaches_exit:
  "\<exists>k n es. k \<le> pc_rank (mpc c) \<and> (main_step f w ^^ k) c \<lparr>mpc = Exit n, done_effects = es\<rparr>"
proof (induction "pc_rank (mpc c)" arbitrary: c rule: less_induct)
  case less
  show ?case
  proof (cases "\<exists>n. mpc c = Exit n")
    case True
    then obtain n where "mpc c = Exit n" by blast
    then have "(main_step f w ^^ 0) c \<lparr>mpc = Exit n, done_effects = done_effects c\<rparr>"
      by (cases c) simp
    then show ?thesis by blast
  next
    case False
    then obtain c' where step: "main_step f w c c'" using main_step_progress by blast
    then have lt: "pc_rank (mpc c') < pc_rank (mpc c)" by (rule main_step_rank)
    then obtain k n es where "k \<le> pc_rank (mpc c')"
        and "(main_step f w ^^ k) c' \<lparr>mpc = Exit n, done_effects = es\<rparr>"
      using less by blast
    moreover from step this(2) have "(main_step f w ^^ Suc k) c \<lparr>mpc = Exit n, done_effects = es\<rparr>"
      by (rule relpowp_Suc_I2)
    ultimately show ?thesis using lt by (metis Suc_leI le_trans not_less_eq_eq)
  qed
qed

lemma main_init_status: "status_ok main_init"
  by (simp add: status_ok_def main_init_def)

lemma main_steps_exit:
  assumes "(main_step f w)\<^sup>*\<^sup>* main_init \<lparr>mpc = Exit n, done_effects = es\<rparr>"
  shows "es = main f w \<and> n = exit_status (main f w)"
proof -
  from main_steps_rest [OF assms] have "es = main f w" by (simp add: main_init_def)
  moreover from main_steps_status [OF assms main_init_status] have "n = exit_status es"
    by (simp add: status_ok_def)
  ultimately show ?thesis by simp
qed



end
