(* ===== verification/Go_Lower.thy ===== *)
theory Go_Lower
  imports Name_Extractor Utf8
begin

text \<open>
  \<open>strings.ToLower\<close> as Go's library writes it, which \<open>addDomainsToSet\<close> calls on
  line 93: a first loop that finds whether the string is ASCII and has an upper-case
  letter, the ASCII fast path that copies the unchanged runs and lowers each letter, and
  otherwise \<open>strings.Map(unicode.ToLower, s)\<close>: a loop over the runes that finds the
  first rune to change, then a loop that maps every remaining rune. \<open>unicode.ToLower\<close>
  is its ASCII branch and a parameter \<open>tbl\<close> for the lookup in the \<open>CaseRanges\<close>
  table, which the lemmas never need to know. The lemmas show that \<open>go_ToLower\<close> of
  \<open>Go_Strings\<close>, the model the extraction uses, is the library's result on ASCII input,
  and what the library does beyond it.
\<close>

text \<open>\<open>unicode.ToLower(r)\<close>: ASCII letters directly, other runes by \<open>To(LowerCase, r)\<close>.\<close>

definition unicode_ToLower :: "(rune \<Rightarrow> rune) \<Rightarrow> rune \<Rightarrow> rune" where
  "unicode_ToLower tbl r =
     (if r \<le> 0x7F then (if 0x41 \<le> r \<and> r \<le> 0x5A then r + 0x20 else r) else tbl r)"

text \<open>\<open>utf8.RuneLen(r)\<close>: the width of the encoding, -1 for a rune with none.\<close>

definition go_RuneLen :: "rune \<Rightarrow> int" where
  "go_RuneLen r =
     (if r < RuneSelf then 1
      else if r < 0x800 then 2
      else if 0xD800 \<le> r \<and> r \<le> 0xDFFF then -1
      else if r < 0x10000 then 3
      else if r \<le> MaxRune then 4
      else -1)"

text \<open>
  The first loop of \<open>strings.Map\<close>: \<open>for i, c := range s\<close> from byte \<open>i\<close>; the index,
  the mapped rune and the width of the first rune that must be rewritten, if any. A
  \<open>RuneError\<close> is decoded again to tell an invalid byte (width 1) from an encoded
  \<open>U+FFFD\<close>.
\<close>

function map_find :: "(rune \<Rightarrow> rune) \<Rightarrow> go_string \<Rightarrow> nat \<Rightarrow> (nat \<times> rune \<times> nat) option" where
  "map_find m s i =
     (if length s \<le> i then None
      else
        (let (c, w) = go_DecodeRune (drop i s); r = m c in
         if r = c \<and> c \<noteq> RuneError then map_find m s (i + w)
         else if c = RuneError then
           (let (c', width) = go_DecodeRune (drop i s) in
            if width \<noteq> 1 \<and> r = c' then map_find m s (i + w) else Some (i, r, width))
         else Some (i, r, nat (go_RuneLen c))))"
  by pat_completeness auto
termination
  by (relation "measure (\<lambda>(m, s, i). length s - i)")
    (auto dest!: decode_width [OF sym] simp: Suc_le_eq)

text \<open>
  The second loop: every rune of the rest is mapped and written, a rune below
  \<open>RuneSelf\<close> by \<open>WriteByte\<close>, any other by \<open>WriteRune\<close>.
\<close>

function map_rest :: "(rune \<Rightarrow> rune) \<Rightarrow> go_string \<Rightarrow> go_string" where
  "map_rest m [] = []"
| "map_rest m (b # bs) =
     (let (c, w) = go_DecodeRune (b # bs); r = m c in
      (if r < RuneSelf then [char_of r] else go_EncodeRune r) @ map_rest m (drop w (b # bs)))"
  by pat_completeness auto
termination
proof (relation "measure (\<lambda>(m, s). length s)")
  fix m b bs cw c w
  assume "cw = go_DecodeRune (b # bs)" "(c, w) = cw"
  then have "1 \<le> w" using decode_width [of "b # bs" c w] by simp
  then show "((m, drop w (b # bs)), m, b # bs) \<in> measure (\<lambda>(m, s). length s)" by simp
qed auto

text \<open>\<open>strings.Map(mapping, s)\<close>: the input itself when no rune changes.\<close>

definition go_Map :: "(rune \<Rightarrow> rune) \<Rightarrow> go_string \<Rightarrow> go_string" where
  "go_Map m s =
     (case map_find m s 0 of
        None \<Rightarrow> s
      | Some (i, r, width) \<Rightarrow> take i s @ go_EncodeRune r @ map_rest m (drop (i + width) s))"

text \<open>The first loop of \<open>strings.ToLower\<close>: \<open>(isASCII, hasUpper)\<close>.\<close>

fun ascii_scan :: "bool \<Rightarrow> go_string \<Rightarrow> bool \<times> bool" where
  "ascii_scan hasUpper [] = (True, hasUpper)"
| "ascii_scan hasUpper (c # cs) =
     (if RuneSelf \<le> of_char c then (False, hasUpper)
      else ascii_scan (hasUpper \<or> is_ascii_upper c) cs)"

text \<open>
  The ASCII fast path: \<open>pos\<close> is the start of the run not yet copied into the builder
  \<open>b\<close>; an upper-case letter flushes the run and writes the letter lowered.
\<close>

function lower_loop :: "go_string \<Rightarrow> nat \<Rightarrow> nat \<Rightarrow> go_string \<Rightarrow> go_string" where
  "lower_loop s i pos b =
     (if i < length s then
        (let c = s ! i in
         if is_ascii_upper c
         then lower_loop s (i + 1) (i + 1)
                (b @ (if pos < i then take (i - pos) (drop pos s) else []) @
                 [char_of (of_char c + (32::nat))])
         else lower_loop s (i + 1) pos b)
      else b @ (if pos < length s then drop pos s else []))"
  by pat_completeness auto
termination
  by (relation "measure (\<lambda>(s, i, pos, b). length s - i)") auto

definition go_ToLower_lib :: "(rune \<Rightarrow> rune) \<Rightarrow> go_string \<Rightarrow> go_string" where
  "go_ToLower_lib tbl s =
     (let (isASCII, hasUpper) = ascii_scan False s in
      if isASCII then (if \<not> hasUpper then s else lower_loop s 0 0 [])
      else go_Map (unicode_ToLower tbl) s)"

text \<open>
  The runes \<open>for _, c := range s\<close> visits: each decoded by \<open>DecodeRuneInString\<close>,
  an invalid byte as \<open>RuneError\<close> of width 1. The specification of \<open>strings.Map\<close>
  and of \<open>strings.ToLower\<close> is stated over this sequence.
\<close>

function go_runes :: "go_string \<Rightarrow> rune list" where
  "go_runes [] = []"
| "go_runes (b # bs) = (let (c, w) = go_DecodeRune (b # bs) in c # go_runes (drop w (b # bs)))"
  by pat_completeness auto
termination
  by (relation "measure length") (auto dest!: decode_width_Cons simp del: go_DecodeRune.simps)

text \<open>Every rune mapped and written: what \<open>strings.Map\<close> promises.\<close>

abbreviation runes_mapped :: "(rune \<Rightarrow> rune) \<Rightarrow> go_string \<Rightarrow> go_string" where
  "runes_mapped m s \<equiv> concat (map (\<lambda>c. go_EncodeRune (m c)) (go_runes s))"

declare map_find.simps [simp del] lower_loop.simps [simp del]


lemma map_ascii_lower_id: "list_all (\<lambda>c. \<not> is_ascii_upper c) xs \<Longrightarrow> map ascii_lower xs = xs"
  by (induction xs) (simp_all add: ascii_lower_def)

lemma ascii_scan_ascii:
  "list_all (\<lambda>c. (of_char c :: nat) < RuneSelf) s \<Longrightarrow>
     ascii_scan h s = (True, h \<or> list_ex is_ascii_upper s)"
  by (induction s arbitrary: h) auto

lemma ascii_scan_not_ascii:
  "\<not> list_all (\<lambda>c. (of_char c :: nat) < RuneSelf) s \<Longrightarrow> fst (ascii_scan h s) = False"
  by (induction s arbitrary: h) auto

lemma lower_loop_eq:
  assumes "pos \<le> i" "i \<le> length s" "\<forall>j. pos \<le> j \<and> j < i \<longrightarrow> \<not> is_ascii_upper (s ! j)"
  shows "lower_loop s i pos b = b @ map ascii_lower (drop pos s)"
  using assms
proof (induction s i pos b rule: lower_loop.induct)
  case (1 s i pos b)
  have run: "list_all (\<lambda>c. \<not> is_ascii_upper c) (take (i - pos) (drop pos s))"
    using "1.prems" by (auto simp: list_all_length)
  show ?case
  proof (cases "i < length s")
    case i: True
    have split: "drop pos s = take (i - pos) (drop pos s) @ s ! i # drop (Suc i) s"
      using i "1.prems"(1) by (metis Cons_nth_drop_Suc append_take_drop_id drop_drop le_add_diff_inverse2)
    have run_if: "(if pos < i then take (i - pos) (drop pos s) else []) = take (i - pos) (drop pos s)"
      using "1.prems"(1) by simp
    show ?thesis
    proof (cases "is_ascii_upper (s ! i)")
      case True
      have low: "char_of (of_char (s ! i) + (32::nat)) = ascii_lower (s ! i)"
        using True by (simp add: ascii_lower_def)
      let ?b = "b @ (if pos < i then take (i - pos) (drop pos s) else []) @
                [char_of (of_char (s ! i) + (32::nat))]"
      have "lower_loop s i pos b = lower_loop s (i + 1) (i + 1) ?b"
        using i True by (subst lower_loop.simps) simp
      also have "\<dots> = ?b @ map ascii_lower (drop (i + 1) s)"
        by (rule "1.IH"(1) [OF i refl True]) (use i in auto)
      also have "\<dots> = b @ map ascii_lower (drop pos s)"
        by (subst split) (simp add: run_if low map_ascii_lower_id [OF run])
      finally show ?thesis .
    next
      case False
      have "\<forall>j. pos \<le> j \<and> j < i + 1 \<longrightarrow> \<not> is_ascii_upper (s ! j)"
        using "1.prems"(3) False less_Suc_eq by auto
      then show ?thesis
        using "1.IH"(2) [OF i refl False] "1.prems"(1) i False by (subst lower_loop.simps) simp
    qed
  next
    case False
    then have "i = length s" using "1.prems"(2) by simp
    then show ?thesis using False run by (subst lower_loop.simps) (simp add: map_ascii_lower_id)
  qed
qed

lemma go_RuneLen_encode: "valid_rune r \<Longrightarrow> go_RuneLen r = int (length (go_EncodeRune r))"
  by (auto simp: go_RuneLen_def go_EncodeRune_def valid_rune_def RuneSelf_def MaxRune_def Let_def)

lemma decode_take_encode:
  assumes "go_DecodeRune s = (c, w)" "(c, w) \<noteq> (RuneError, 1)" "s \<noteq> []"
  shows "take w s = go_EncodeRune c \<and> go_RuneLen c = int w"
proof -
  have e: "take w s = go_EncodeRune c \<and> valid_rune c" by (rule decode_valid_encoding [OF assms])
  moreover have "w \<le> length s" using decode_width [OF assms(1)] by simp
  ultimately show ?thesis by (metis go_RuneLen_encode length_take min_absorb2)
qed

lemma go_runes_dec: "s \<noteq> [] \<Longrightarrow> go_DecodeRune s = (c, w) \<Longrightarrow> go_runes s = c # go_runes (drop w s)"
  by (cases s) simp_all

lemma runes_mapped_keep:
  assumes "go_DecodeRune s = (c, w)" "(c, w) \<noteq> (RuneError, 1)" "s \<noteq> []" "m c = c"
  shows "runes_mapped m s = take w s @ runes_mapped m (drop w s)"
  using assms decode_take_encode [OF assms(1-3)] by (simp add: go_runes_dec)

lemma map_find_spec:
  "case map_find m s i of
     None \<Rightarrow> runes_mapped m (drop i s) = drop i s
   | Some (j, r, width) \<Rightarrow> i \<le> j \<and>
       runes_mapped m (drop i s) = take (j - i) (drop i s) @ go_EncodeRune r @ runes_mapped m (drop (j + width) s)"
proof (induction "length s - i" arbitrary: i rule: less_induct)
  case less
  show ?case
  proof (cases "length s \<le> i")
    case True
    then show ?thesis by (simp add: map_find.simps)
  next
    case False
    then have ne: "drop i s \<noteq> []" by simp
    obtain c w where d: "go_DecodeRune (drop i s) = (c, w)" by fastforce
    then have w1: "1 \<le> w" using decode_width [OF d] ne by simp
    then have ih: "case map_find m s (i + w) of
        None \<Rightarrow> runes_mapped m (drop (i + w) s) = drop (i + w) s
      | Some (j, r, width) \<Rightarrow> i + w \<le> j \<and>
          runes_mapped m (drop (i + w) s) =
            take (j - (i + w)) (drop (i + w) s) @ go_EncodeRune r @ runes_mapped m (drop (j + width) s)"
      using less False by simp
    have skip: "runes_mapped m (drop i s) = take w (drop i s) @ runes_mapped m (drop (i + w) s)"
      if "(c, w) \<noteq> (RuneError, 1)" "m c = c"
      using runes_mapped_keep [where m = m, OF d that(1) ne that(2)] by (simp add: add.commute)
    have here: "runes_mapped m (drop i s) = go_EncodeRune (m c) @ runes_mapped m (drop (i + w) s)"
      using go_runes_dec [OF ne d] by (simp add: add.commute)
    have take_add: "take w (drop i s) @ take (j - (i + w)) (drop (i + w) s) = take (j - i) (drop i s)"
      if "i + w \<le> j" for j
      using that by (metis add.commute add_diff_cancel_left' drop_drop le_add1 le_add_diff_inverse
          diff_diff_left take_add)
    have td: "take w (drop i s) @ drop (i + w) s = drop i s"
      by (metis append_take_drop_id drop_drop add.commute)
    consider (same) "m c = c \<and> c \<noteq> RuneError" | (err_same) "c = RuneError" "w \<noteq> 1" "m c = c"
      | (err_new) "c = RuneError" "\<not> (w \<noteq> 1 \<and> m c = c)" | (new) "c \<noteq> RuneError" "m c \<noteq> c"
      by blast
    then show ?thesis
    proof cases
      case same
      then have "map_find m s i = map_find m s (i + w)"
        using False d by (subst map_find.simps) simp
      then show ?thesis using ih skip same take_add td by (auto split: option.splits)
    next
      case err_same
      then have "map_find m s i = map_find m s (i + w)"
        using False d by (subst map_find.simps) simp
      then show ?thesis using ih skip err_same take_add td by (auto split: option.splits)
    next
      case err_new
      then have "map_find m s i = Some (i, m c, w)"
        using False d by (subst map_find.simps) auto
      then show ?thesis using here by simp
    next
      case new
      then have "go_RuneLen c = int w" using decode_take_encode [OF d _ ne] by simp
      then have "map_find m s i = Some (i, m c, w)"
        using False d new by (subst map_find.simps) simp
      then show ?thesis using here by simp
    qed
  qed
qed

lemma map_rest_spec: "map_rest m s = runes_mapped m s"
proof (induction m s rule: map_rest.induct)
  case (2 m b bs)
  obtain c w where d: "go_DecodeRune (b # bs) = (c, w)" by fastforce
  have "(if m c < RuneSelf then [char_of (m c)] else go_EncodeRune (m c)) = go_EncodeRune (m c)"
    by (simp add: go_EncodeRune_def RuneSelf_def)
  then show ?case using "2.IH" [OF d [symmetric] refl] d by (simp del: go_DecodeRune.simps)
qed simp

lemma go_Map_spec: "go_Map m s = runes_mapped m s"
  using map_find_spec [where m = m and s = s and i = 0] by (auto simp: go_Map_def map_rest_spec split: option.splits)

lemma encode_ToLower_ascii:
  "(of_char c :: nat) < RuneSelf \<Longrightarrow> go_EncodeRune (unicode_ToLower tbl (of_char c)) = [ascii_lower c]"
  by (auto simp: unicode_ToLower_def go_EncodeRune_def ascii_lower_def is_ascii_upper_def RuneSelf_def)

lemma runes_mapped_ascii:
  "list_all (\<lambda>c. (of_char c :: nat) < RuneSelf) s \<Longrightarrow>
     runes_mapped (unicode_ToLower tbl) s = go_ToLower s"
  by (induction s) (simp_all add: go_ToLower_def decode_ascii encode_ToLower_ascii del: go_DecodeRune.simps)

lemma go_ToLower_lib_ascii_path:
  assumes "list_all (\<lambda>c. (of_char c :: nat) < RuneSelf) s"
  shows "go_ToLower_lib tbl s = go_ToLower s"
proof (cases "list_ex is_ascii_upper s")
  case True
  then show ?thesis
    using lower_loop_eq [where pos = 0 and i = 0 and s = s and b = "[]"] assms by (simp add: go_ToLower_lib_def ascii_scan_ascii go_ToLower_def)
next
  case False
  then have "map ascii_lower s = s" by (simp add: map_ascii_lower_id list_ex_iff list_all_iff)
  then show ?thesis using assms False by (simp add: go_ToLower_lib_def ascii_scan_ascii go_ToLower_def)
qed

lemma go_EncodeRune_ascii: "r \<le> 0x7F \<Longrightarrow> go_EncodeRune r = [char_of r]"
  by (simp add: go_EncodeRune_def)

lemma go_ToLower_lib_not_ascii:
  "\<not> list_all (\<lambda>c. (of_char c :: nat) < RuneSelf) s \<Longrightarrow>
     go_ToLower_lib tbl s = runes_mapped (unicode_ToLower tbl) s"
proof -
  assume "\<not> list_all (\<lambda>c. (of_char c :: nat) < RuneSelf) s"
  moreover obtain a h where "ascii_scan False s = (a, h)" by fastforce
  ultimately have "ascii_scan False s = (False, h)" using ascii_scan_not_ascii [of s False] by simp
  then show ?thesis by (simp add: go_ToLower_lib_def go_Map_spec)
qed

text \<open>
  C21: for a token of ASCII bytes, the normalization of line 93 with the library's
  \<open>strings.ToLower\<close> is \<open>normalize_token\<close>, the model the extraction uses: the
  ASCII fast path lowers exactly the letters \<open>A\<close>--\<open>Z\<close>, whatever the case tables.
\<close>

theorem go_ToLower_lib_normalize:
  assumes "list_all (\<lambda>c. (of_char c :: nat) < RuneSelf) t"
  shows "go_ToLower_lib tbl (go_TrimSpace t) = Name_Extractor.normalize_token t"
proof -
  have "set (go_TrimSpace t) \<subseteq> set t" using go_TrimSpace_sublist by (rule set_mono_sublist)
  then have "list_all (\<lambda>c. (of_char c :: nat) < RuneSelf) (go_TrimSpace t)"
    using assms by (auto simp: list_all_iff)
  then show ?thesis by (simp add: go_ToLower_lib_ascii_path normalize_token_def)
qed

theorem go_ToLower_lib_normalize_witness:
  "list_all (\<lambda>c. (of_char c :: nat) < RuneSelf) '' WWW.Example.COM'' \<and>
   go_ToLower_lib id (go_TrimSpace '' WWW.Example.COM'') = ''www.example.com''"
proof -
  have a: "list_all (\<lambda>c. (of_char c :: nat) < RuneSelf) '' WWW.Example.COM''"
    by (simp add: RuneSelf_def)
  show ?thesis
    using go_ToLower_lib_normalize [OF a, of id] a
    by (simp add: normalize_token_def go_eval)
qed

text \<open>
  C22: \<open>strings.ToLower\<close> as the library writes it, with its ASCII fast path and the
  two loops of \<open>strings.Map\<close>, maps every rune of its input by \<open>unicode.ToLower\<close> and
  writes it back in UTF-8, each invalid byte read as \<open>RuneError\<close>; for any case table.
\<close>

theorem go_ToLower_lib_runes:
  "go_ToLower_lib tbl s = concat (map (\<lambda>c. go_EncodeRune (unicode_ToLower tbl c)) (go_runes s))"
proof (cases "list_all (\<lambda>c. (of_char c :: nat) < RuneSelf) s")
  case True
  then show ?thesis by (simp add: go_ToLower_lib_ascii_path runes_mapped_ascii)
next
  case False
  then show ?thesis by (rule go_ToLower_lib_not_ascii)
qed


end
