(* ===== verification/Spec2Isabelle.thy ===== *)
theory Spec2Isabelle
  imports Go_Trim Crt_Response Go_Flag Recon_Steps Go_Lower
begin

text \<open>
  \<^bold>\<open>A verification model of \<open>src/recon/crtRecon.go\<close>.\<close>

  \<^medskip>
  \<^bold>\<open>The program.\<close> One Go file (\<open>package main\<close>) queries the certificate
  transparency search service \<open>crt.sh\<close> for a domain (\<open>-d\<close>) or an organization
  (\<open>-org\<close>), collects host names from the JSON records it gets back, and prints them,
  one per line, to standard output and optionally to a file (\<open>-o\<close>). Its parts are
  the command line and its checks (lines 19--40), the request (43--53), the JSON
  decoding (55--59), the NameExtractor: the loop of lines 61--74 with the helper
  \<open>addDomainsToSet\<close> (92--97), and the output stage (76--89). They run once, in this
  order, in one thread; the only state is the map \<open>domainSet\<close> and the string
  \<open>output\<close>.

  \<^medskip>
  \<^bold>\<open>The theories.\<close>
  \<^item> \<open>Recon_Prelude\<close>: the types (a Go string is a byte list, \<open>go_set\<close> is the
    \<open>map[string]struct{}\<close>), the named collections and generic lemmas on prefixes
    under byte maps, on cutting a list at a byte, and on maps into \<open>unit\<close>.
  \<^item> \<open>Go_Strings\<close>: the routines of Go's package \<open>strings\<close> the program calls,
    on bytes: \<open>go_TrimSpace\<close> (\<open>TrimFunc(s, unicode.IsSpace)\<close>, with every
    \<open>White_Space\<close> rune matched through its UTF-8 encoding by \<open>trim_left_seqs\<close>),
    \<open>go_ToLower\<close>, \<open>go_ContainsAny\<close>, \<open>go_Contains\<close>, \<open>go_Split\<close> (the loop of
    \<open>genSplit\<close> for a one-byte separator, a \<open>function\<close> with a length measure) and
    \<open>go_ReplaceAll_byte\<close>. Lemmas: trimming returns an infix with no leading or
    trailing white-space rune and is idempotent; lowercasing is idempotent and commutes
    with trimming; \<open>Split\<close> round-trips through \<open>Join\<close> and yields one more piece
    than there are separators.
  \<^item> \<open>Utf8\<close>: Go's \<open>unicode/utf8\<close> as \<open>strings.TrimSpace\<close> runs it:
    \<open>go_DecodeRune\<close> (the tables \<open>first\<close>/\<open>acceptRanges\<close> as \<open>utf8_accept\<close>, masks
    and shifts as \<open>mod\<close>/\<open>div\<close>), \<open>go_EncodeRune\<close>, \<open>go_DecodeLastRune\<close> with its
    backward scan \<open>scan_start\<close> over Go \<open>int\<close> indices. Lemmas: encode/decode round
    trips from both ends, soundness of every non-error decoding (the bytes read are the
    encoding of a valid rune), validity of every decoded rune, widths 1 to 4.
  \<^item> \<open>Unicode_Space\<close>: \<open>unicode.IsSpace\<close> with the \<open>White_Space\<close> range table,
    \<open>is16\<close> and \<open>isExcludingLatin\<close>. Lemmas: the linear search is correct on sorted
    tables; \<open>IsSpace\<close> holds of exactly 25 runes.
  \<^item> \<open>Go_Trim\<close>: \<open>strings.TrimSpace\<close> as the library writes it: the ASCII fast path
    (\<open>trim_space_start\<close>, \<open>trim_space_stop\<close>, \<open>asciiSpace\<close>), \<open>TrimFunc\<close>,
    \<open>TrimLeftFunc\<close>, \<open>TrimRightFunc\<close>, \<open>indexFunc\<close>, \<open>lastIndexFunc\<close>. Lemmas: it
    equals the byte-pattern model \<open>go_TrimSpace\<close> of \<open>Go_Strings\<close> on every input
    (equivalence of the optimized routine with its reference, and of the rune loops with
    the pattern matching), so the NameExtractor's lemmas hold of the library's code.
  \<^item> \<open>Go_Lower\<close>: \<open>strings.ToLower\<close> (line 93) as the library writes it:
    \<open>ascii_scan\<close> (is the string ASCII, has it an upper-case letter), the fast path
    \<open>lower_loop\<close> with its copy position, and \<open>go_Map\<close> (\<open>strings.Map\<close>: the loop
    \<open>map_find\<close> for the first rune to rewrite, with \<open>utf8.RuneLen\<close>, then
    \<open>map_rest\<close>) over \<open>unicode_ToLower\<close>, whose lookup in the non-ASCII case
    tables is a parameter \<open>tbl\<close>. Lemmas: it maps every rune (\<open>go_runes\<close>, the runes
    \<open>range\<close> visits) for every table; on ASCII tokens it is the byte-wise
    \<open>go_ToLower\<close> the extraction uses; it merges names that differ in an invalid byte.
  \<^item> \<open>Name_Extractor\<close>: the record \<open>Certificate\<close>, \<open>addDomainsToSet\<close>, the inner
    loop \<open>add_names\<close>, the loop body \<open>add_certificate\<close> with its test of
    \<open>*domainArg\<close>, the loop \<open>collect_domains\<close> and \<open>build_domain_set\<close> (lines 62--74).
    Against them the specification's extractor \<open>extract_set\<close> (section 4.1) and the
    CandidateSet invariant \<open>set_ok\<close> (section 3). Lemmas: refinement (the keys of the
    map are the specification's set), the invariant, idempotent normalization,
    collapse of duplicates, commutation of insertions, dependence on the set of
    records only, and the scenarios of section 8.
  \<^item> \<open>Output_Writer\<close>: \<open>build_output\<close> (lines 76--78) over the order in which the
    runtime ranges over the map (\<open>range_order\<close>: every key exactly once), the lines a
    reader sees, and the file mode \<open>0644\<close> as a 32-bit word.
  \<^item> \<open>Recon_Main\<close>: \<open>main\<close> as a function from the flags and a \<open>world\<close> of
    collaborators (\<open>http.Get\<close>, \<open>ioutil.ReadAll\<close>, \<open>json.Unmarshal\<close>, map
    iteration, \<open>ioutil.WriteFile\<close>) to the list of effects it performs in order,
    \<open>log.Fatal\<close> included; \<open>select_query\<close>, \<open>crt_query_url\<close>, \<open>process_body\<close>,
    \<open>write_results\<close>; the form decoding by which the server reads the query. Lemmas:
    the flag checks, that a fatal error ends the run, that the status code is ignored,
    which errors can follow output, the deferred close, the URL round trip.
  \<^item> \<open>Recon_Steps\<close>: the same body of \<open>main\<close> as a small-step machine: a
    configuration \<open>main_conf\<close> is the program point \<open>main_pc\<close> reached (after the
    flags, before the GET, the read, the decoding, the collection loop, the print, the
    file write, the return, or the end of the process with its status) and the effects
    so far; \<open>main_step\<close> has one rule per statement and outcome of lines 25--90.
    Lemmas: the machine is deterministic, every point but the end has a step and every
    step moves forward, so every run ends within nine steps (liveness); by a simulation
    through \<open>rest_effects\<close> (what \<open>main\<close> still does from a point) and the
    invariant \<open>status_ok\<close> (proved by rule induction), the runs from the start end
    exactly with the effects and status of the function \<open>main\<close> (refinement).
  \<^item> \<open>Go_Json\<close>: \<open>json.Unmarshal(body, &certificates)\<close> (line 56) after Go's
    \<open>encoding/json\<close>: \<open>json_checkValid\<close> with the scanner's grammar as the mutual
    recursion \<open>json_value\<close>/\<open>json_elements\<close>/\<open>json_members\<close> (with the nesting
    limit \<open>maxNestingDepth\<close>), \<open>scan_string\<close> and \<open>scan_number\<close>;
    \<open>go_unquote\<close> (\<open>unquoteBytes\<close>: the fast path \<open>unquote_plain_prefix\<close> and the
    loop \<open>unquote_loop\<close> with \<open>getu4\<close> and \<open>utf16\<close> surrogate pairs); the decoder
    \<open>decode_certificates\<close>/\<open>decode_elements\<close>/\<open>decode_members\<close> with
    \<open>cert_field_of\<close> (exact name, then \<open>foldName\<close>), \<open>store_string\<close> and
    \<open>save_error\<close>; \<open>json_Unmarshal\<close> and the world's \<open>json_unmarshal_world\<close>.
    Lemmas: every scan consumes input, the fuel suffices (termination) and more fuel
    changes nothing, every string the scanner accepts unquotes, so \<open>Unmarshal\<close>
    returns a \<open>SyntaxError\<close> exactly when \<open>checkValid\<close> rejects; the fast path of
    \<open>unquoteBytes\<close> equals its loop.
  \<^item> \<open>Crt_Response\<close>: the JSON body crt.sh sends, modelled from the specification
    (\<open>encode_certificates\<close>, ASCII names with quote, backslash and newline
    escaped). Lemma: \<open>json.Unmarshal\<close> decodes it back into the certificates.
  \<^item> \<open>Go_Flag\<close>: the command line (lines 20--23): \<open>flag.String\<close> for \<open>d\<close>,
    \<open>org\<close>, \<open>o\<close> and \<open>flag.Parse\<close> after Go's package \<open>flag\<close>: \<open>parseOne\<close> and
    the loop \<open>parse_loop\<close> of \<open>FlagSet.Parse\<close> (terminating by the number of
    arguments left), \<open>flag_Parse\<close>, and \<open>cli_main\<close>, which runs \<open>main\<close> on the
    parsed values or exits as \<open>ExitOnError\<close> does. Lemmas: both ways of writing a
    flag parse back, the last occurrence of a flag wins, and an empty \<open>-d=\<close> does not
    count as a query flag for the check of line 33.
  \<^item> This theory: runs of \<open>main\<close> across the components: a successful domain query
    from request to output, the same with the JSON decoder on crt.sh's response, and the
    decoder's error and \<open>null\<close> paths.

  \<^medskip>
  \<^bold>\<open>Modelling choices.\<close> Loops are structural recursions over the lists they
  range over, so every definition is total and executable; the non-structural
  recursions (\<open>trim_left_seqs\<close>, \<open>go_Split\<close>, \<open>scan_string\<close>, \<open>unquote_loop\<close>,
  \<open>scan_start\<close>) terminate by a length measure. The one place with fuel is the JSON
  scanner, whose state machine is written as a mutual recursion: every call spends one
  unit, and \<open>json_fuel\<close> gives twice the input length plus one. That is enough
  because each value or list step either consumes a byte or passes to a call that does
  (\<open>json_checkValid_terminates\<close>), and fuel beyond a successful scan does not change
  its result (\<open>json_checkValid_unbounded\<close>), so the bound is no restriction. Every \<open>log.Fatal\<close> is an effect \<open>LogFatal\<close> after which
  nothing runs, as \<open>os.Exit\<close> skips deferred calls. The world's results are
  parameters: a theorem about a run states what the collaborators returned.

  \<^medskip>
  \<^bold>\<open>Not modelled.\<close> The texts the \<open>flag\<close> package prints (usage and error
  messages) and its boolean flags, which the program does not define; the HTTP
  transport and TLS; the value of number
  literals in the JSON decoder (no field of \<open>Certificate\<close> holds a number, so a
  number only ever causes an \<open>UnmarshalTypeError\<close>), the decoder's reuse of an
  existing slice (\<open>certificates\<close> starts \<open>nil\<close>), and the non-ASCII members of the
  \<open>unicode.SimpleFold\<close> orbits in \<open>foldName\<close> (no field name contains them); the
  members crt.sh sends beyond \<open>common_name\<close> and \<open>name_value\<close>; the exact text of the usage message and of
  the \<open>log\<close> lines; the Unicode case tables of \<open>unicode.ToLower\<close> for non-ASCII
  runes (a parameter of \<open>Go_Lower\<close>: they are generated data of the Go distribution,
  not part of this repository, and no lemma depends on them; the extraction itself uses
  the byte-wise \<open>go_ToLower\<close>, which \<open>Go_Lower\<close> shows exact on ASCII tokens); percent escapes in the server's reading of the
  query (the round trip lemma excludes \<open>%\<close>); the binary search of \<open>unicode.is16\<close>,
  which tables of at most 18 ranges never reach. The library routines are modelled from
  the Go standard library's source (they are not part of this repository) and mapped to
  the line of \<open>crtRecon.go\<close> that calls them.

  \<^medskip>
  \<^bold>\<open>What the development shows about the code.\<close> The extraction is correct
  with respect to the specification; a domain query prints exactly the CandidateSet,
  one name per line, also when the body is decoded by the modelled \<open>encoding/json\<close>
  from the response crt.sh sends. Six behaviours differ from the specification: the
  HTTP status code is never checked (a 500 response with a JSON body succeeds); the
  decoder does not check the shape of the body (\<open>null\<close>, \<open>null\<close> elements,
  missing or unknown members are accepted); a failed file write happens after all names
  were printed; an organization query keeps a common name with an embedded newline (or
  tab), which prints as several lines; the query is not URL-escaped beyond spaces,
  so an ampersand truncates the search term; and the check that only one query flag is
  given tests the values, so \<open>-d= -org Acme\<close> runs an organization query. The
  specification is silent on bytes that are not UTF-8: \<open>strings.ToLower\<close> replaces each
  by \<open>U+FFFD\<close>, so two names differing only there become one key. The program, run
  statement by statement, always ends: within nine steps, by a return or \<open>log.Fatal\<close>.
\<close>

text \<open>
  \<^bold>\<open>Plan of the development.\<close> Modelled so far, in order of importance: the
  NameExtractor with its refinement of the specification (\<open>Name_Extractor\<close>), the
  output stage (\<open>Output_Writer\<close>), \<open>main\<close> with its error paths (\<open>Recon_Main\<close>),
  and the library routines they rest on (\<open>Go_Strings\<close>). Next, in this order:
  \<^enum> done: UTF-8 decoding (\<open>Utf8\<close>), \<open>unicode.IsSpace\<close> (\<open>Unicode_Space\<close>) and
    \<open>strings.TrimSpace\<close> as the library writes it, proved equal to \<open>go_TrimSpace\<close>
    (\<open>Go_Trim\<close>);
  \<^enum> done: \<open>strings.ToLower\<close> at the rune level (\<open>Go_Lower\<close>): its ASCII fast path
    and \<open>strings.Map\<close> with \<open>unicode.ToLower\<close>, which re-encodes invalid bytes as
    \<open>U+FFFD\<close>, agreeing with the byte-wise model on ASCII input;
  \<^enum> done: the decoder for \<open>[]Certificate\<close> after \<open>encoding/json\<close>
    (\<open>Go_Json\<close>), the crt.sh response and the decode round trip
    (\<open>Crt_Response\<close>), and \<open>main\<close> run with it (this theory); next there, the other
    members of crt.sh's records (numbers, dates) in the round trip and non-ASCII names;
  \<^enum> percent decoding in the server's reading of the query and the exact set of
    search terms that survive line 43 (round trip and its converse);
  \<^enum> done: the \<open>flag\<close> package's parsing of \<open>-d\<close>, \<open>-org\<close> and \<open>-o\<close>
    (\<open>Go_Flag\<close>); next there, \<open>main\<close>'s lemmas restated for \<open>cli_main\<close>;
  \<^enum> done: \<open>main\<close> statement by statement (\<open>Recon_Steps\<close>), with its liveness
    and its refinement of \<open>Recon_Main\<close>'s function.
\<close>

subsection \<open>Runs of main across the components\<close>

text \<open>
  C7: when the request, the read and the decoding succeed and the runtime ranges over
  \<open>domainSet\<close> in some order, a domain query requests the URL of the domain, prints
  the output, writes the same output to the file if one was given, closes the body and
  exits with 0; the printed lines are the keys in that order, each exactly once, and
  they are the specification's CandidateSet.
\<close>

theorem main_domain_query_run:
  assumes dom_flag: "domainArg f \<noteq> []" and org_flag: "orgArg f = []"
    and get: "http_get w (crt_query_url (domainArg f)) = Inr resp"
    and read: "Body resp = Inr body"
    and decode: "unmarshal w body = Inr certs"
    and keys: "range_keys w (build_domain_set (domainArg f) certs) = ks"
    and ord_keys: "range_order (build_domain_set (domainArg f) certs) ks"
    and wr: "outputFile f \<noteq> [] \<longrightarrow> write_file w (outputFile f) (build_output ks []) file_mode_0644"
  shows "main f w =
           [HttpGet (crt_query_url (domainArg f)), Stdout (build_output ks [])] @
           (if outputFile f \<noteq> [] then [WriteFile (outputFile f) (build_output ks []) file_mode_0644]
            else []) @ [CloseBody] \<and>
         output_lines (build_output ks []) = ks \<and> distinct ks \<and>
         set ks = extract_set certs DomainQuery \<and> exit_status (main f w) = 0"
proof -
  have sel: "select_query f = domainArg f"
    using org_flag by (simp add: select_query_def)
  have run: "main f w =
           [HttpGet (crt_query_url (domainArg f)), Stdout (build_output ks [])] @
           (if outputFile f \<noteq> [] then [WriteFile (outputFile f) (build_output ks []) file_mode_0644]
            else []) @ [CloseBody]"
    using dom_flag org_flag get read decode keys wr
    by (simp add: main_unfold sel)
  have "output_lines (build_output ks []) = ks \<and> distinct ks \<and> set ks = extract_set certs DomainQuery"
    using domain_output_lines [OF dom_flag ord_keys] .
  with run show ?thesis
    by (simp add: exit_status_def)
qed

theorem main_domain_query_run_witness:
  "domainArg \<lparr>domainArg = ''example.com'', orgArg = '''', outputFile = ''out.txt''\<rparr> \<noteq> [] \<and>
   orgArg \<lparr>domainArg = ''example.com'', orgArg = '''', outputFile = ''out.txt''\<rparr> = [] \<and>
   main \<lparr>domainArg = ''example.com'', orgArg = '''', outputFile = ''out.txt''\<rparr>
     \<lparr>http_get = (\<lambda>u. Inr \<lparr>StatusCode = 200, Body = Inr ''body''\<rparr>),
      unmarshal = (\<lambda>b. Inr [\<lparr>CommonName = '''', NameValue = ''B.com\<newline>a.com''\<rparr>]),
      range_keys = (\<lambda>m. [''b.com'', ''a.com'']), write_file = (\<lambda>p d m. True)\<rparr> =
   [HttpGet ''https://crt.sh/?q=example.com&output=json'', Stdout ''b.com\<newline>a.com\<newline>'',
    WriteFile ''out.txt'' ''b.com\<newline>a.com\<newline>'' file_mode_0644, CloseBody]"
proof -
  let ?f = "\<lparr>domainArg = ''example.com'', orgArg = '''', outputFile = ''out.txt''\<rparr>"
  let ?c = "[\<lparr>CommonName = '''', NameValue = ''B.com\<newline>a.com''\<rparr>]"
  let ?w = "\<lparr>http_get = (\<lambda>u. Inr \<lparr>StatusCode = 200, Body = Inr ''body''\<rparr>),
      unmarshal = (\<lambda>b. Inr ?c),
      range_keys = (\<lambda>m. [''b.com'', ''a.com'']), write_file = (\<lambda>p d m. True)\<rparr>"
  have ord: "range_order (build_domain_set ''example.com'' ?c) [''b.com'', ''a.com'']"
    unfolding range_order_def build_domain_set_def dom_collect_domains
    by (simp add: extract_set_def mode_of_def normalize_token_def accepted_def go_eval)
  have "main ?f ?w =
           [HttpGet (crt_query_url ''example.com''), Stdout (build_output [''b.com'', ''a.com''] [])] @
           [WriteFile ''out.txt'' (build_output [''b.com'', ''a.com''] []) file_mode_0644] @ [CloseBody]"
    using main_domain_query_run [of ?f ?w "\<lparr>StatusCode = 200, Body = Inr ''body''\<rparr>" "''body''" ?c
        "[''b.com'', ''a.com'']"] ord by simp
  then show ?thesis
    by (simp add: crt_query_url_def go_ReplaceAll_byte_def)
qed
text \<open>
  C36: with the JSON decoder of \<open>Go_Json\<close> as the world's \<open>unmarshal\<close>, a response body
  that \<open>checkValid\<close> rejects ends the run at \<open>log.Fatal\<close> of line 58, right after the
  request, with exit status 1: nothing is printed and the body is not closed.
\<close>

theorem main_malformed_body:
  assumes q: "domainArg f \<noteq> [] \<or> orgArg f \<noteq> []" "\<not> (domainArg f \<noteq> [] \<and> orgArg f \<noteq> [])"
    and get: "http_get w (crt_query_url (select_query f)) = Inr resp" and read: "Body resp = Inr body"
    and dec: "unmarshal w = json_unmarshal_world" and bad: "json_checkValid body = None"
  shows "main f w = [HttpGet (crt_query_url (select_query f)), LogFatal ParseFailed] \<and>
         exit_status (main f w) = 1"
proof -
  have "unmarshal w body = Inl ()"
    using dec bad by (simp add: json_unmarshal_world_def json_Unmarshal_def)
  then show ?thesis using q get read
    by (auto simp: main_unfold exit_status_def)
qed

text \<open>
  C37: the body \<open>null\<close>, which is not an array, is decoded without an error into no
  certificates: a domain query prints nothing and exits with status 0, whatever the status
  code of the response.
\<close>

theorem main_null_body:
  assumes q: "domainArg f \<noteq> []" "orgArg f = []" and nofile: "outputFile f = []"
    and get: "http_get w (crt_query_url (domainArg f)) = Inr resp" and read: "Body resp = Inr ''null''"
    and dec: "unmarshal w = json_unmarshal_world"
    and keys: "range_order Map.empty (range_keys w Map.empty)"
  shows "main f w = [HttpGet (crt_query_url (domainArg f)), Stdout [], CloseBody] \<and>
         exit_status (main f w) = 0"
proof -
  have "json_unmarshal_world ''null'' = Inr []"
    by (simp add: json_unmarshal_world_def json_Unmarshal_def json_checkValid_def json_fuel_def
        skip_space_def json_isSpace_def is_digit_def eval_nat_numeral decode_certificates_def)
  moreover have "range_keys w Map.empty = []" using keys by (simp add: range_order_def)
  ultimately show ?thesis using q nofile get read dec
    by (simp add: main_unfold select_query_def build_domain_set_def exit_status_def)
qed


text \<open>
  C35: the whole pipeline on the response crt.sh sends (\<open>Crt_Response\<close>): for a domain
  query whose response body encodes the certificates \<open>cs\<close>, \<open>main\<close> requests the URL,
  prints one line per name, the lines being exactly the specification's CandidateSet of
  \<open>cs\<close>, closes the body and exits with status 0.
\<close>

theorem main_crt_response:
  assumes q: "domainArg f \<noteq> []" "orgArg f = []"
    and get: "http_get w (crt_query_url (domainArg f)) = Inr resp"
    and read: "Body resp = Inr (encode_certificates cs)" and enc_ok: "certs_text_ok cs"
    and dec: "unmarshal w = json_unmarshal_world"
    and keys: "range_keys w (build_domain_set (domainArg f) cs) = ks"
    and ord_keys: "range_order (build_domain_set (domainArg f) cs) ks"
    and nofile: "outputFile f = []"
  shows "main f w = [HttpGet (crt_query_url (domainArg f)), Stdout (build_output ks []), CloseBody] \<and>
         output_lines (build_output ks []) = ks \<and> set ks = extract_set cs DomainQuery \<and>
         exit_status (main f w) = 0"
proof -
  have "unmarshal w (encode_certificates cs) = Inr cs"
    using dec json_unmarshal_world_encode [OF enc_ok] by simp
  then have run: "main f w = [HttpGet (crt_query_url (domainArg f)), Stdout (build_output ks []), CloseBody]"
    using q get read keys nofile by (simp add: main_unfold select_query_def)
  then show ?thesis using domain_output_lines [OF q(1) ord_keys] by (simp add: exit_status_def)
qed

theorem main_malformed_body_witness:
  "domainArg \<lparr>domainArg = ''a.com'', orgArg = [], outputFile = []\<rparr> \<noteq> [] \<and>
   json_checkValid ''{'' = None \<and>
   main \<lparr>domainArg = ''a.com'', orgArg = [], outputFile = []\<rparr>
     \<lparr>http_get = (\<lambda>u. Inr \<lparr>StatusCode = 200, Body = Inr ''{''\<rparr>), unmarshal = json_unmarshal_world,
      range_keys = (\<lambda>m. []), write_file = (\<lambda>p d m. True)\<rparr> =
   [HttpGet (crt_query_url ''a.com''), LogFatal ParseFailed]"
proof -
  have bad: "json_checkValid ''{'' = None"
    by (simp add: json_checkValid_def json_fuel_def skip_space_def json_isSpace_def eval_nat_numeral
        maxNestingDepth_def)
  show ?thesis
    using main_malformed_body [of "\<lparr>domainArg = ''a.com'', orgArg = [], outputFile = []\<rparr>"
        "\<lparr>http_get = (\<lambda>u. Inr \<lparr>StatusCode = 200, Body = Inr ''{''\<rparr>), unmarshal = json_unmarshal_world,
          range_keys = (\<lambda>m. []), write_file = (\<lambda>p d m. True)\<rparr>"
        "\<lparr>StatusCode = 200, Body = Inr ''{''\<rparr>" "''{''"] bad
    by (simp add: select_query_def)
qed

theorem main_null_body_witness:
  "main \<lparr>domainArg = ''a.com'', orgArg = [], outputFile = []\<rparr>
     \<lparr>http_get = (\<lambda>u. Inr \<lparr>StatusCode = 500, Body = Inr ''null''\<rparr>), unmarshal = json_unmarshal_world,
      range_keys = (\<lambda>m. []), write_file = (\<lambda>p d m. True)\<rparr> =
   [HttpGet (crt_query_url ''a.com''), Stdout [], CloseBody]"
  using main_null_body [of "\<lparr>domainArg = ''a.com'', orgArg = [], outputFile = []\<rparr>"
      "\<lparr>http_get = (\<lambda>u. Inr \<lparr>StatusCode = 500, Body = Inr ''null''\<rparr>), unmarshal = json_unmarshal_world,
        range_keys = (\<lambda>m. []), write_file = (\<lambda>p d m. True)\<rparr>"
      "\<lparr>StatusCode = 500, Body = Inr ''null''\<rparr>"]
  by (simp add: range_order_def)

theorem main_crt_response_witness:
  "main \<lparr>domainArg = ''a.com'', orgArg = [], outputFile = []\<rparr>
     \<lparr>http_get = (\<lambda>u. Inr \<lparr>StatusCode = 200,
        Body = Inr (encode_certificates [\<lparr>CommonName = ''x'', NameValue = ''a.com\<newline>B.a.com''\<rparr>])\<rparr>),
      unmarshal = json_unmarshal_world,
      range_keys = (\<lambda>m. [''b.a.com'', ''a.com'']), write_file = (\<lambda>p d m. True)\<rparr> =
   [HttpGet (crt_query_url ''a.com''), Stdout ''b.a.com\<newline>a.com\<newline>'', CloseBody]"
proof -
  let ?c = "[\<lparr>CommonName = ''x'', NameValue = ''a.com\<newline>B.a.com''\<rparr>]"
  have enc_ok: "certs_text_ok ?c" by (simp add: certs_text_ok_def json_text_ok_def)
  have ord: "range_order (build_domain_set ''a.com'' ?c) [''b.a.com'', ''a.com'']"
    unfolding range_order_def build_domain_set_def dom_collect_domains
    by (simp add: extract_set_def mode_of_def normalize_token_def accepted_def go_eval insert_commute)
  show ?thesis
    using main_crt_response [of "\<lparr>domainArg = ''a.com'', orgArg = [], outputFile = []\<rparr>"
        "\<lparr>http_get = (\<lambda>u. Inr \<lparr>StatusCode = 200, Body = Inr (encode_certificates ?c)\<rparr>),
          unmarshal = json_unmarshal_world,
          range_keys = (\<lambda>m. [''b.a.com'', ''a.com'']), write_file = (\<lambda>p d m. True)\<rparr>"
        "\<lparr>StatusCode = 200, Body = Inr (encode_certificates ?c)\<rparr>" ?c "[''b.a.com'', ''a.com'']"]
      enc_ok ord
    by simp
qed

end
